theory Spec2Isabelle
  imports Main "HOL-Library.Word"
begin

section \<open>Data model\<close>

text \<open>
  The script drives an image-processing host. An image object of the host carries its
  geometry, its bit depth (8, 16, 24 for packed colour, 32 for float), the hyperstack
  dimensions, the index of the current stack plane (1-based), the planes themselves, a
  calibration record and the window flags the script touches (\<open>changes\<close>, shown or
  hidden, closed). A plane maps a position \<open>x y\<close> to a sample value. The calibration's
  numeric fields are IEEE doubles: they are only ever copied, so they are kept as their
  64-bit patterns.
\<close>

type_synonym double = "64 word"

type_synonym plane = "nat \<Rightarrow> nat \<Rightarrow> nat"

record calibration =
  pixelWidth :: double
  pixelHeight :: double
  unit :: string
  frameInterval :: double
  fps :: double

record image =
  title :: string
  width :: nat
  height :: nat
  bitDepth :: nat
  nChannels :: nat
  nSlices :: nat
  nFrames :: nat
  slice :: nat
  stack :: "plane list"
  cal :: calibration
  changes :: bool
  visible :: bool
  closed :: bool

text \<open>An image processor: one plane of an image together with its geometry and depth.\<close>

record processor =
  pwidth :: nat
  pheight :: nat
  pdepth :: nat
  pix :: plane

text \<open>
  The selections the script passes to the host's Duplicate command:
  \<open>"duplicate slices=Z frames=1-N"\<close>, \<open>"duplicate frames=1-N"\<close>,
  \<open>"duplicate slices=S use"\<close> and \<open>"duplicate"\<close>.
\<close>

datatype dupSel = SliceFrames nat nat | Frames nat | SliceUse nat | Whole

text \<open>
  What the host computes on pixel data, and the names and calibrations it gives to the
  images it makes, are not fixed by the script. They are a parameter of the model:
  \<open>convert h d d' p\<close> is the plane the host makes of a plane \<open>p\<close> of depth \<open>d\<close> when it
  converts it to depth \<open>d'\<close>; \<open>fill h t\<close> is the sample a new image of type \<open>t\<close> is
  filled with and \<open>newCal h\<close> its calibration; \<open>dupPlanes\<close>, \<open>splitPlanes\<close>,
  \<open>mergePlanes\<close> and \<open>rgbPlanes\<close> are the planes of a duplicate, of one split channel, of
  a channel merge and of a colour-forced composite; \<open>dupTitle\<close> names a duplicate made
  without a title and \<open>mergeCal\<close> is the calibration a channel merge starts with.
\<close>

record host =
  convert :: "nat \<Rightarrow> nat \<Rightarrow> plane \<Rightarrow> plane"
  fill :: "string \<Rightarrow> nat"
  newCal :: calibration
  dupPlanes :: "dupSel \<Rightarrow> image \<Rightarrow> plane list"
  splitPlanes :: "image \<Rightarrow> nat \<Rightarrow> plane list"
  mergePlanes :: "image list \<Rightarrow> plane list"
  rgbPlanes :: "image \<Rightarrow> plane list"
  dupTitle :: "string \<Rightarrow> string"
  mergeCal :: "image list \<Rightarrow> calibration"

datatype error = TypeError

type_synonym message = "string \<times> string"

section \<open>Host operations used by the Montage Assembler\<close>

text \<open>
  Modelled from the spec: the host's \<open>setSlice\<close> (spec section 6, set-active-frame)
  makes plane \<open>n\<close> of the stack the current one, and ignores an index outside
  \<open>1..size\<close>.
\<close>

definition setSlice :: "nat \<Rightarrow> image \<Rightarrow> image" where
  "setSlice n img = (if 1 \<le> n \<and> n \<le> length (stack img) then img\<lparr>slice := n\<rparr> else img)"

text \<open>
  Modelled from the spec: the host's \<open>getProcessor\<close> gives the current plane. An image
  whose current index is outside its stack has no processor (the host's null), and the
  script's next method call on it throws.
\<close>

definition getProcessor :: "image \<Rightarrow> processor option" where
  "getProcessor img =
     (if 1 \<le> slice img \<and> slice img \<le> length (stack img)
      then Some \<lparr>pwidth = width img, pheight = height img, pdepth = bitDepth img,
                 pix = stack img ! (slice img - 1)\<rparr>
      else None)"

text \<open>The processor of the current plane is the plane itself: writing into it writes the stack.\<close>

definition putProcessor :: "image \<Rightarrow> processor \<Rightarrow> image" where
  "putProcessor img ip = img\<lparr>stack := (stack img)[slice img - 1 := pix ip]\<rparr>"

text \<open>
  Modelled from the spec: the host's colour-mode forcing of one processor
  (\<open>convertToRGB\<close>, spec section 6, per-image transforms) keeps the geometry.
\<close>

definition convertToRGB :: "host \<Rightarrow> processor \<Rightarrow> processor" where
  "convertToRGB h p = p\<lparr>pdepth := 24, pix := convert h (pdepth p) 24 (pix p)\<rparr>"

text \<open>
  Modelled from the spec: the host's pixel-block insertion (\<open>ip.insert(proc, xloc, yloc)\<close>,
  spec section 6) copies the block of \<open>proc\<close> into \<open>ip\<close> at \<open>(xloc, yloc)\<close>, clipped to
  \<open>ip\<close>, after bringing it to the depth of \<open>ip\<close> when the depths differ.
\<close>

definition coerce :: "host \<Rightarrow> nat \<Rightarrow> nat \<Rightarrow> plane \<Rightarrow> plane" where
  "coerce h d d' p = (if d = d' then p else convert h d d' p)"

definition insertP :: "host \<Rightarrow> processor \<Rightarrow> processor \<Rightarrow> nat \<Rightarrow> nat \<Rightarrow> processor" where
  "insertP h ip proc xloc yloc =
     ip\<lparr>pix := (\<lambda>x y.
        if xloc \<le> x \<and> x < xloc + pwidth proc \<and> x < pwidth ip \<and>
           yloc \<le> y \<and> y < yloc + pheight proc \<and> y < pheight ip
        then coerce h (pdepth proc) (pdepth ip) (pix proc) (x - xloc) (y - yloc)
        else pix ip x y)\<rparr>"

text \<open>
  Modelled from the spec: the host's \<open>IJ.createImage(title, type, width, height, 1)\<close>
  (spec 4.4 step 3, allocate a blank image). The type string names the depth.
\<close>

definition typeDepth :: "string \<Rightarrow> nat" where
  "typeDepth t = (if take 3 t = ''RGB'' then 24 else if take 6 t = ''16-bit'' then 16 else 8)"

definition createImage :: "host \<Rightarrow> string \<Rightarrow> string \<Rightarrow> nat \<Rightarrow> nat \<Rightarrow> image" where
  "createImage h ttl t w hgt =
     \<lparr>title = ttl, width = w, height = hgt, bitDepth = typeDepth t,
      nChannels = 1, nSlices = 1, nFrames = 1, slice = 1,
      stack = [\<lambda>x y. fill h t], cal = newCal h,
      changes = False, visible = False, closed = False\<rparr>"

text \<open>
  The hyperstack of the multi-frame path: \<open>maxFrames\<close> blank planes added to a new
  \<open>ImageStack(width, height)\<close>, wrapped as the image "Stacked" with dimensions
  \<open>(1, 1, maxFrames)\<close>.
\<close>

definition planeOf :: "image \<Rightarrow> plane" where
  "planeOf img = (case getProcessor img of Some p \<Rightarrow> pix p | None \<Rightarrow> (\<lambda>x y. 0))"

definition newHyperstack :: "host \<Rightarrow> string \<Rightarrow> nat \<Rightarrow> nat \<Rightarrow> nat \<Rightarrow> image" where
  "newHyperstack h t w hgt maxFrames =
     (createImage h ''Stacked'' t w hgt)
       \<lparr>stack := map (\<lambda>f. planeOf (createImage h ''frame'' t w hgt)) [1..<maxFrames + 1],
        nChannels := 1, nSlices := 1, nFrames := maxFrames\<rparr>"

section \<open>The Montage Assembler (stackImagesHorizontally)\<close>

text \<open>The scan for time frames: \<open>hasTimeFrames\<close> and \<open>maxFrames\<close>, starting from \<open>(false, 1)\<close>.\<close>

fun scanFrames :: "image list \<Rightarrow> bool \<times> nat \<Rightarrow> bool \<times> nat" where
  "scanFrames [] acc = acc"
| "scanFrames (img # rest) (hasTimeFrames, maxFrames) =
     (let nF = nFrames img in
      if nF > 1 then scanFrames rest (True, if nF > maxFrames then nF else maxFrames)
      else scanFrames rest (hasTimeFrames, maxFrames))"

text \<open>\<open>Math.max.apply(null, xs)\<close> on a list of non-negative integers.\<close>

definition mathMax :: "nat list \<Rightarrow> nat" where
  "mathMax xs = fold max xs 0"

text \<open>
  The choice of the input's plane for output frame \<open>f\<close>: frame \<open>f\<close> when the input has
  that many frames, its last frame otherwise, the current plane when it reports no frame.
\<close>

definition selectFrame :: "nat \<Rightarrow> image \<Rightarrow> image" where
  "selectFrame f img =
     (if nFrames img \<ge> f then setSlice f img
      else if nFrames img > 0 then setSlice (nFrames img) img
      else img)"

text \<open>
  The inner loop over the inputs, left to right, with the running \<open>xOffset\<close>. \<open>sel\<close>
  positions each input first (\<open>selectFrame f\<close> in the multi-frame path, nothing in the
  single-frame path). The inputs come back with their current plane as the loop left it.
\<close>

fun insertAll :: "host \<Rightarrow> bool \<Rightarrow> (image \<Rightarrow> image) \<Rightarrow> image list \<Rightarrow> processor \<Rightarrow> nat
    \<Rightarrow> error + (processor \<times> image list)" where
  "insertAll h anyRGB sel [] ip xOffset = Inr (ip, [])"
| "insertAll h anyRGB sel (img0 # rest) ip xOffset =
     (let img = sel img0 in
      case getProcessor img of
        None \<Rightarrow> Inl TypeError
      | Some proc0 \<Rightarrow>
          (let proc = (if anyRGB \<and> bitDepth img \<noteq> 24 then convertToRGB h proc0 else proc0);
               ip' = insertP h ip proc xOffset 0
           in case insertAll h anyRGB sel rest ip' (xOffset + width img) of
                Inl e \<Rightarrow> Inl e
              | Inr (ip'', rest') \<Rightarrow> Inr (ip'', img # rest')))"

text \<open>The outer loop over the output frames \<open>f = 1 .. maxFrames\<close>.\<close>

fun frameLoop :: "host \<Rightarrow> bool \<Rightarrow> nat list \<Rightarrow> image \<Rightarrow> image list
    \<Rightarrow> error + (image \<times> image list)" where
  "frameLoop h anyRGB [] out images = Inr (out, images)"
| "frameLoop h anyRGB (f # fs) out images =
     (let out1 = setSlice f out in
      case getProcessor out1 of
        None \<Rightarrow> Inl TypeError
      | Some ip \<Rightarrow>
          (case insertAll h anyRGB (selectFrame f) images ip 0 of
             Inl e \<Rightarrow> Inl e
           | Inr (ip', images') \<Rightarrow> frameLoop h anyRGB fs (putProcessor out1 ip') images'))"

text \<open>The calibration copy from the first input.\<close>

definition copyCal :: "bool \<Rightarrow> calibration \<Rightarrow> calibration \<Rightarrow> calibration" where
  "copyCal temporal c stackCal =
     (let c1 = stackCal\<lparr>pixelWidth := pixelWidth c, pixelHeight := pixelHeight c, unit := unit c\<rparr>
      in if temporal then c1\<lparr>frameInterval := frameInterval c, fps := fps c\<rparr> else c1)"

text \<open>
  The function itself. It returns the messages it shows to the user and either a thrown
  error, null (\<open>None\<close>), or the montage together with the inputs as it left them.
\<close>

definition stackingError :: message where
  "stackingError = (''Stacking Error'', ''Need at least 2 images to create a horizontal stack.'')"

definition stackImagesHorizontally :: "host \<Rightarrow> image list
    \<Rightarrow> message list \<times> (error + (image \<times> image list) option)" where
  "stackImagesHorizontally h images =
     (if length images < 2 then ([stackingError], Inr None)
      else
        let (hasTimeFrames, maxFrames) = scanFrames images (False, 1);
            w = foldl (\<lambda>sum img. sum + width img) 0 images;
            hgt = mathMax (map height images);
            anyRGB = list_ex (\<lambda>img. bitDepth img = 24) images;
            bd = bitDepth (images ! 0);
            filled =
              (if hasTimeFrames then
                 (let blank = (if anyRGB then newHyperstack h ''RGB'' w hgt maxFrames
                               else if bd = 16 then newHyperstack h ''16-bit black'' w hgt maxFrames
                               else newHyperstack h ''8-bit black'' w hgt maxFrames)
                  in frameLoop h anyRGB [1..<maxFrames + 1] blank images)
               else
                 (let blank = (if anyRGB then createImage h ''Stacked'' ''RGB Color'' w hgt
                               else if bd = 16 then createImage h ''Stacked'' ''16-bit black'' w hgt
                               else createImage h ''Stacked'' ''8-bit black'' w hgt)
                  in case getProcessor blank of
                       None \<Rightarrow> Inl TypeError
                     | Some ip \<Rightarrow>
                         (case insertAll h anyRGB (\<lambda>img. img) images ip 0 of
                            Inl e \<Rightarrow> Inl e
                          | Inr (ip', images') \<Rightarrow> Inr (putProcessor blank ip', images'))))
        in case filled of
             Inl e \<Rightarrow> ([], Inl e)
           | Inr (st, images') \<Rightarrow>
               ([], Inr (Some (st\<lparr>cal := copyCal hasTimeFrames (cal (images' ! 0)) (cal st),
                                   visible := True\<rparr>, images'))))"

section \<open>The script's state\<close>

text \<open>
  Image objects are held by reference. The store maps every reference to an image value;
  references below \<open>nextRef\<close> are allocated. Next to the store the state has the host's
  current image (what \<open>IJ.getImage()\<close> returns), the script's global variables, the state
  of the dialog's widgets and the messages shown to the user so far. A global that is
  \<open>null\<close> or \<open>undefined\<close> is \<open>None\<close>: the script tests globals with \<open>!x\<close> and
  \<open>x == null\<close> only, which do not tell the two apart.
\<close>

type_synonym ref = nat

datatype jsval = Undefined | Null | Obj ref

datatype outcome = Threw error | Returned jsval

record state =
  heap :: "ref \<Rightarrow> image"
  nextRef :: ref
  current :: "ref option"
  originalImage :: "ref option"
  duplicatedCroppedImage :: "ref option"
  splitInvertedChannels :: "ref option list"
  splitInvertedChannelsFullStack :: "ref option list"
  finalAlignedImage :: "ref option"
  mergeCheckboxes :: "bool list"
  alignmentChoices :: "string list"
  useFramesCheckbox :: bool
  mergeCount :: nat
  messages :: "message list"

definition modify :: "ref \<Rightarrow> (image \<Rightarrow> image) \<Rightarrow> state \<Rightarrow> state" where
  "modify r f s = s\<lparr>heap := (heap s)(r := f (heap s r))\<rparr>"

definition alloc :: "image \<Rightarrow> state \<Rightarrow> ref \<times> state" where
  "alloc img s = (nextRef s, s\<lparr>heap := (heap s)(nextRef s := img), nextRef := nextRef s + 1\<rparr>)"

fun allocAll :: "image list \<Rightarrow> state \<Rightarrow> ref list \<times> state" where
  "allocAll [] s = ([], s)"
| "allocAll (img # rest) s =
     (let (r, s1) = alloc img s; (rs, s2) = allocAll rest s1 in (r # rs, s2))"

text \<open>\<open>IJ.showMessage(title, text)\<close>.\<close>

definition showMessage :: "string \<Rightarrow> string \<Rightarrow> state \<Rightarrow> state" where
  "showMessage t m s = s\<lparr>messages := messages s @ [(t, m)]\<rparr>"

text \<open>An assignment \<open>a[i] = v\<close> to a JavaScript array: past the end, the array grows.\<close>

definition jsSet :: "'a option list \<Rightarrow> nat \<Rightarrow> 'a option \<Rightarrow> 'a option list" where
  "jsSet xs i v = (if i < length xs then xs[i := v] else xs @ replicate (i - length xs) None @ [v])"

text \<open>A non-negative integer printed in decimal, as string concatenation prints it.\<close>

function showNat :: "nat \<Rightarrow> string" where
  "showNat n = (if n < 10 then [char_of (48 + n)]
                else showNat (n div 10) @ [char_of (48 + n mod 10)])"
  by pat_completeness auto
termination
  by (relation "measure (\<lambda>n. n)") auto

declare showNat.simps [simp del]

text \<open>
  \<open>parseInt(str, 10)\<close>: leading white space is skipped, one sign is read, then the longest
  run of decimal digits; without a digit the result is NaN (\<open>None\<close>). A character of the
  model is a code unit below 256; the white space among these is tab, line feed, vertical
  tab, form feed, carriage return, space and the no-break space (160).
\<close>

definition isSpace :: "char \<Rightarrow> bool" where
  "isSpace c = (of_char c \<in> {9, 10, 11, 12, 13, 32, 160 :: nat})"

definition isDigit :: "char \<Rightarrow> bool" where
  "isDigit c = (48 \<le> (of_char c :: nat) \<and> (of_char c :: nat) \<le> 57)"

definition digitsValue :: "string \<Rightarrow> nat" where
  "digitsValue ds = foldl (\<lambda>a c. 10 * a + (of_char c - 48)) 0 ds"

definition parseInt :: "string \<Rightarrow> int option" where
  "parseInt str =
     (let t = dropWhile isSpace str;
          neg = (case t of [] \<Rightarrow> False | c # r \<Rightarrow> c = CHR ''-'');
          u = (case t of [] \<Rightarrow> [] | c # r \<Rightarrow> if c = CHR ''-'' \<or> c = CHR ''+'' then r else t);
          ds = takeWhile isDigit u
      in if ds = [] then None
         else Some (if neg then - int (digitsValue ds) else int (digitsValue ds)))"

section \<open>Host commands on the state\<close>

text \<open>
  Modelled from the spec: the host's Duplicate command (spec section 6, image lifecycle)
  makes a new image of the same geometry, depth, channel count and calibration, shows it
  and makes it the current image. What it selects is what the spec says of each caller:
  one Z position with all time frames or the current frame only (spec 4.1 and 4.2), and for
  the Provider the full time range or the current frame only (spec 4.3).
\<close>

definition duplicated :: "host \<Rightarrow> dupSel \<Rightarrow> string option \<Rightarrow> image \<Rightarrow> image" where
  "duplicated h sel ttl img =
     img\<lparr>title := (case ttl of Some t \<Rightarrow> t | None \<Rightarrow> dupTitle h (title img)),
         nSlices := (case sel of SliceFrames z n \<Rightarrow> 1 | Frames n \<Rightarrow> nSlices img
                     | SliceUse k \<Rightarrow> 1 | Whole \<Rightarrow> nSlices img),
         nFrames := (case sel of SliceFrames z n \<Rightarrow> n | Frames n \<Rightarrow> n
                     | SliceUse k \<Rightarrow> 1 | Whole \<Rightarrow> 1),
         slice := 1, stack := dupPlanes h sel img,
         changes := False, visible := True, closed := False\<rparr>"

definition ij_duplicate :: "host \<Rightarrow> ref \<Rightarrow> dupSel \<Rightarrow> string option \<Rightarrow> state \<Rightarrow> state" where
  "ij_duplicate h r sel ttl s =
     (let (d, s') = alloc (duplicated h sel ttl (heap s r)) s in s'\<lparr>current := Some d\<rparr>)"

text \<open>
  Modelled from the spec: the host's channel splitter (spec section 6, split-by-channel)
  gives one new single-channel image per channel of its argument, not yet shown.
\<close>

definition channelOf :: "host \<Rightarrow> image \<Rightarrow> nat \<Rightarrow> image" where
  "channelOf h img c =
     img\<lparr>title := ''C'' @ showNat (c + 1) @ ''-'' @ title img, nChannels := 1, slice := 1,
         stack := splitPlanes h img c, changes := False, visible := False, closed := False\<rparr>"

definition ij_split :: "host \<Rightarrow> ref \<Rightarrow> state \<Rightarrow> ref list \<times> state" where
  "ij_split h r s = allocAll (map (channelOf h (heap s r)) [0..<nChannels (heap s r)]) s"

text \<open>
  Modelled from the spec: the host's bit-depth conversion (spec section 6, per-image
  transforms) changes the depth and the samples of every plane and marks the image as
  changed.
\<close>

definition converted :: "host \<Rightarrow> nat \<Rightarrow> image \<Rightarrow> image" where
  "converted h d img =
     img\<lparr>bitDepth := d, stack := map (convert h (bitDepth img) d) (stack img), changes := True\<rparr>"

text \<open>
  Modelled from the spec: the host's intensity inversion (spec 4.1, "pixel value to
  max - value") within the image's bit depth, of the whole stack (option \<open>"stack"\<close>) or of
  the current plane only.
\<close>

definition invertSample :: "nat \<Rightarrow> nat \<Rightarrow> nat" where
  "invertSample d v = (2 ^ d - 1) - v"

definition invertPlane :: "nat \<Rightarrow> plane \<Rightarrow> plane" where
  "invertPlane d p = (\<lambda>x y. invertSample d (p x y))"

definition inverted :: "bool \<Rightarrow> image \<Rightarrow> image" where
  "inverted whole img =
     (if whole
      then img\<lparr>stack := map (invertPlane (bitDepth img)) (stack img), changes := True\<rparr>
      else img\<lparr>stack := map (\<lambda>k. if k + 1 = slice img
                                   then invertPlane (bitDepth img) (stack img ! k)
                                   else stack img ! k) [0..<length (stack img)],
               changes := True\<rparr>)"

text \<open>
  Modelled from the spec: the host's channel merge (spec section 6, multi-channel
  combination) makes one new image with one channel per argument, not yet shown. The script
  calls it with at least one image.
\<close>

definition mergedOf :: "host \<Rightarrow> image list \<Rightarrow> image" where
  "mergedOf h imgs =
     \<lparr>title = ''Composite'',
      width = (case imgs of [] \<Rightarrow> 0 | first # _ \<Rightarrow> width first),
      height = (case imgs of [] \<Rightarrow> 0 | first # _ \<Rightarrow> height first),
      bitDepth = (case imgs of [] \<Rightarrow> 0 | first # _ \<Rightarrow> bitDepth first),
      nChannels = length imgs,
      nSlices = (case imgs of [] \<Rightarrow> 0 | first # _ \<Rightarrow> nSlices first),
      nFrames = (case imgs of [] \<Rightarrow> 0 | first # _ \<Rightarrow> nFrames first),
      slice = 1, stack = mergePlanes h imgs, cal = mergeCal h imgs,
      changes = False, visible = False, closed = False\<rparr>"

definition ij_mergeChannels :: "host \<Rightarrow> ref list \<Rightarrow> state \<Rightarrow> ref \<times> state" where
  "ij_mergeChannels h rs s = alloc (mergedOf h (map (heap s) rs)) s"

text \<open>
  Modelled from the spec: the host's colour-mode forcing of an image (spec section 6) makes
  it a single-channel 24-bit image in place.
\<close>

definition rgbColor :: "host \<Rightarrow> image \<Rightarrow> image" where
  "rgbColor h img = img\<lparr>bitDepth := 24, nChannels := 1, stack := rgbPlanes h img, changes := True\<rparr>"

text \<open>
  Modelled from the spec: show, hide and close (spec section 6, image lifecycle). Showing an
  image makes it the current one. \<open>IJ.selectWindow(title)\<close> makes the first open window of
  that title the current image.
\<close>

definition imgShow :: "ref \<Rightarrow> state \<Rightarrow> state" where
  "imgShow r s = (modify r (\<lambda>i. i\<lparr>visible := True\<rparr>) s)\<lparr>current := Some r\<rparr>"

definition imgHide :: "ref \<Rightarrow> state \<Rightarrow> state" where
  "imgHide r s = modify r (\<lambda>i. i\<lparr>visible := False\<rparr>) s"

definition imgClose :: "ref \<Rightarrow> state \<Rightarrow> state" where
  "imgClose r s = modify r (\<lambda>i. i\<lparr>visible := False, closed := True\<rparr>) s"

definition setChanges :: "ref \<Rightarrow> bool \<Rightarrow> state \<Rightarrow> state" where
  "setChanges r b s = modify r (\<lambda>i. i\<lparr>changes := b\<rparr>) s"

definition setTitle :: "ref \<Rightarrow> string \<Rightarrow> state \<Rightarrow> state" where
  "setTitle r t s = modify r (\<lambda>i. i\<lparr>title := t\<rparr>) s"

definition ij_selectWindow :: "string \<Rightarrow> state \<Rightarrow> state" where
  "ij_selectWindow t s =
     (case find (\<lambda>r. title (heap s r) = t \<and> visible (heap s r) \<and> \<not> closed (heap s r))
             [0..<nextRef s] of
        Some r \<Rightarrow> s\<lparr>current := Some r\<rparr>
      | None \<Rightarrow> s)"

section \<open>The Channel Extractor (duplicateSplitInvert)\<close>

text \<open>
  The current Z position:
  \<open>Math.floor(((currentSlice - 1) % (nSlices * nChannels)) / nChannels + 1)\<close>.
  The host's dimensions are at least 1 and its slice indices start at 1.
\<close>

definition currentZ :: "image \<Rightarrow> nat" where
  "currentZ img = ((slice img - 1) mod (nSlices img * nChannels img)) div nChannels img + 1"

text \<open>
  The loop \<open>for (i = 0; i < splitArr.length && i < 4; i++)\<close> of either branch: 8-bit, grey
  lookup table (display only), inversion (of the whole stack in the multi-frame branch),
  title, show, and the two Channel Set arrays. \<open>multi\<close> tells the branch, \<open>base\<close> is the
  title the branch appends.
\<close>

function extractLoop :: "host \<Rightarrow> bool \<Rightarrow> string \<Rightarrow> ref list \<Rightarrow> nat \<Rightarrow> state \<Rightarrow> state" where
  "extractLoop h multi base splitArr i s =
     (if i < length splitArr \<and> i < 4 then
        (let r = splitArr ! i;
             s1 = modify r (converted h 8) s;
             s2 = modify r (inverted multi) s1;
             s3 = setTitle r (''C'' @ showNat (i + 1) @ ''-TempForMerge_'' @ base) s2;
             s4 = imgShow r s3;
             s5 = s4\<lparr>splitInvertedChannels := jsSet (splitInvertedChannels s4) i (Some r)\<rparr>;
             s6 = s5\<lparr>splitInvertedChannelsFullStack :=
                       jsSet (splitInvertedChannelsFullStack s5) i (if multi then Some r else None)\<rparr>
         in extractLoop h multi base splitArr (i + 1) s6)
      else s)"
  by pat_completeness auto
termination
  by (relation "measure (\<lambda>(h, multi, base, splitArr, i, s). 4 - i)") auto

declare extractLoop.simps [simp del]

text \<open>The loop \<open>for (k = splitArr.length; k < 4; k++)\<close> that nulls the unused entries.\<close>

function nullLoop :: "nat \<Rightarrow> state \<Rightarrow> state" where
  "nullLoop k s =
     (if k < 4 then
        nullLoop (k + 1)
          (s\<lparr>splitInvertedChannels := jsSet (splitInvertedChannels s) k None,
             splitInvertedChannelsFullStack := jsSet (splitInvertedChannelsFullStack s) k None\<rparr>)
      else s)"
  by pat_completeness auto
termination
  by (relation "measure (\<lambda>(k, s). 4 - k)") auto

declare nullLoop.simps [simp del]

definition duplicateSplitInvert :: "host \<Rightarrow> state \<Rightarrow> outcome \<times> state" where
  "duplicateSplitInvert h s =
     (let s0 = s\<lparr>originalImage := current s\<rparr> in
      case originalImage s0 of
        None \<Rightarrow> (Returned Undefined, showMessage ''Error'' ''No image is open!'' s0)
      | Some orig \<Rightarrow>
          (let useFrames = useFramesCheckbox s0;
               currentSlice = slice (heap s0 orig);
               nF = nFrames (heap s0 orig);
               nS = nSlices (heap s0 orig);
               cz = currentZ (heap s0 orig);
               s1 = (if useFrames \<and> nF > 1 then
                       (if nS > 1 then ij_duplicate h orig (SliceFrames cz nF) None s0
                        else ij_duplicate h orig (Frames nF) None s0)
                     else ij_duplicate h orig (SliceUse currentSlice) None s0);
               s2 = s1\<lparr>duplicatedCroppedImage := current s1\<rparr>
           in case duplicatedCroppedImage s2 of
                None \<Rightarrow> (Threw TypeError, s2)
              | Some dup \<Rightarrow>
                  (let multi = (useFrames \<and> nFrames (heap s2 dup) > 1);
                       (splitArr, s3) = ij_split h dup s2;
                       base = (if multi then title (heap s3 orig) else title (heap s3 dup));
                       s4 = extractLoop h multi base splitArr 0 s3;
                       s5 = nullLoop (length splitArr) s4;
                       s6 = ij_selectWindow (title (heap s5 orig)) s5;
                       s7 = modify orig (setSlice currentSlice) s6;
                       s8 = imgShow orig s7
                   in (Returned Undefined, s8))))"

section \<open>The Merger (createMergeOnly)\<close>

text \<open>The 16-bit promotion loop over the split channels.\<close>

definition promote16 :: "host \<Rightarrow> ref list \<Rightarrow> state \<Rightarrow> state" where
  "promote16 h rs s =
     fold (\<lambda>r s'. if bitDepth (heap s' r) \<noteq> 16 then modify r (converted h 16) s' else s') rs s"

text \<open>
  The selection loop: channel \<open>j\<close> takes part when checkbox \<open>j\<close> is checked and the split
  has a channel \<open>j\<close>.
\<close>

definition collectToMerge :: "bool list \<Rightarrow> ref list \<Rightarrow> ref list" where
  "collectToMerge checkboxes split =
     map (\<lambda>j. split ! j) (filter (\<lambda>j. checkboxes ! j \<and> j < length split) [0..<length checkboxes])"

text \<open>\<open>xs.join(sep)\<close>.\<close>

fun join :: "string \<Rightarrow> string list \<Rightarrow> string" where
  "join sep [] = []"
| "join sep [x] = x"
| "join sep (x # y # rest) = x @ sep @ join sep (y # rest)"

text \<open>The field-by-field calibration copies into the image at \<open>r\<close>.\<close>

definition copySpatial :: "calibration \<Rightarrow> ref \<Rightarrow> state \<Rightarrow> state" where
  "copySpatial c r s =
     modify r (\<lambda>i. i\<lparr>cal := (cal i)\<lparr>pixelWidth := pixelWidth c, pixelHeight := pixelHeight c,
                                     unit := unit c\<rparr>\<rparr>) s"

definition copyTemporal :: "calibration \<Rightarrow> ref \<Rightarrow> state \<Rightarrow> state" where
  "copyTemporal c r s =
     modify r (\<lambda>i. i\<lparr>cal := (cal i)\<lparr>frameInterval := frameInterval c, fps := fps c\<rparr>\<rparr>) s"

text \<open>
  The function body sits in \<open>try { ... } catch (error) { return null; }\<close>. It returns
  \<open>null\<close>, the composite, or (where the body falls off its end) \<open>undefined\<close>.
\<close>

definition createMergeOnly :: "host \<Rightarrow> bool \<Rightarrow> state \<Rightarrow> jsval \<times> state" where
  "createMergeOnly h showImage s =
     (case originalImage s of
        None \<Rightarrow> (Null, showMessage ''Error'' ''Original image not available.'' s)
      | Some orig \<Rightarrow>
          (let checkboxes = mergeCheckboxes s;
               useFrames = useFramesCheckbox s;
               currentSlice = slice (heap s orig);
               nF = nFrames (heap s orig);
               nS = nSlices (heap s orig);
               cz = currentZ (heap s orig);
               uniqueTitle = ''C'' @ ''TempForMerge_'' @ showNat (mergeCount s);
               s1 = s\<lparr>mergeCount := mergeCount s + 1\<rparr>;
               s2 = (if useFrames \<and> nF > 1 then
                       (if nS > 1 then ij_duplicate h orig (SliceFrames cz nF) (Some uniqueTitle) s1
                        else ij_duplicate h orig (Frames nF) (Some uniqueTitle) s1)
                     else ij_duplicate h orig (SliceUse currentSlice) (Some uniqueTitle) s1)
           in case current s2 of
                None \<Rightarrow> (Null, s2)
              | Some localDup \<Rightarrow>
                  if useFrames \<and> nFrames (heap s2 localDup) > 1 then
                    (let (splitStacks, s3) = ij_split h localDup s2;
                         s4 = promote16 h splitStacks s3;
                         toMerge = collectToMerge checkboxes splitStacks
                     in if length toMerge > 0 then
                          (let (mergedStack, s5) = ij_mergeChannels h toMerge s4;
                               s6 = modify mergedStack (rgbColor h) s5;
                               s7 = setTitle mergedStack (''Merged_TimeStack_'' @ uniqueTitle) s6;
                               c = cal (heap s7 orig);
                               s8 = copyTemporal c mergedStack (copySpatial c mergedStack s7);
                               s9 = modify mergedStack (setSlice 1) s8;
                               s10 = (if showImage then imgShow mergedStack s9
                                      else imgHide mergedStack s9);
                               s11 = imgClose localDup (setChanges localDup False s10);
                               s12 = fold (\<lambda>r s'. imgClose r (setChanges r False s')) splitStacks s11
                           in (Obj mergedStack, s12))
                        else (Undefined, s4))
                  else
                    (let (localSplit, s3) = ij_split h localDup s2
                     in if length localSplit < 1 then
                          (Null, showMessage ''Error'' ''No channels available in the duplicated image.'' s3)
                        else
                          (let s4 = promote16 h localSplit s3;
                               toMerge = collectToMerge checkboxes localSplit
                           in if length toMerge = 0 then
                                (let s5 = imgClose localDup (setChanges localDup False s4);
                                     s6 = fold (\<lambda>r s'. imgClose r (setChanges r False s')) localSplit s5
                                 in (Null, s6))
                              else
                                (let (mergedImage, s5) = ij_mergeChannels h toMerge s4;
                                     s6 = modify mergedImage (rgbColor h) s5;
                                     s7 = setTitle mergedImage
                                            (''Merged_'' @ join ''_'' (map (\<lambda>r. title (heap s6 r)) toMerge)) s6;
                                     c = cal (heap s7 orig);
                                     s8 = copySpatial c mergedImage s7;
                                     s9 = (if showImage then imgShow mergedImage s8
                                           else imgHide mergedImage s8);
                                     s10 = setChanges localDup False s9;
                                     s11 = fold (\<lambda>r s'. setChanges r False s') localSplit s10;
                                     s12 = imgClose localDup s11;
                                     s13 = fold (\<lambda>r s'. imgClose r s') localSplit s12
                                 in (Obj mergedImage, s13))))))"

section \<open>The Channel-On-Demand Provider (getChannelImage16OnTheFly)\<close>

text \<open>
  The Provider's two host calls on the entry it found: \<open>IJ.selectWindow\<close> on the entry's
  title, then Duplicate, of all frames when "use frames" is checked and the entry has more
  than one frame. This is the state in which \<open>IJ.getImage()\<close> then finds the copy.
\<close>

definition providerDuplicate :: "host \<Rightarrow> ref \<Rightarrow> state \<Rightarrow> state" where
  "providerDuplicate h visImp s =
     (let s1 = ij_selectWindow (title (heap s visImp)) s;
          useFrames = useFramesCheckbox s1
      in if useFrames \<and> nFrames (heap s1 visImp) > 1
         then ij_duplicate h visImp (Frames (nFrames (heap s1 visImp))) None s1
         else ij_duplicate h visImp Whole None s1)"

definition getChannelImage16OnTheFly :: "host \<Rightarrow> string \<Rightarrow> state \<Rightarrow> outcome \<times> state" where
  "getChannelImage16OnTheFly h chStr s =
     (if take 2 chStr \<noteq> ''Ch'' then (Returned Null, s)
      else
        case parseInt (drop 2 chStr) of
          None \<Rightarrow> (Returned Null, s)
        | Some n \<Rightarrow>
            (let idx = n - 1 in
             if idx < 0 \<or> idx \<ge> int (length (splitInvertedChannels s)) then (Returned Null, s)
             else
               case splitInvertedChannels s ! nat idx of
                 None \<Rightarrow> (Returned Null, s)
               | Some visImp \<Rightarrow>
                   (let s2 = providerDuplicate h visImp s
                    in case current s2 of
                         None \<Rightarrow> (Threw TypeError, s2)
                       | Some dup \<Rightarrow>
                           (let s3 = (if bitDepth (heap s2 dup) \<noteq> 16
                                      then modify dup (converted h 16) s2 else s2);
                                s4 = setTitle dup (''16bit_'' @ title (heap s3 visImp)) s3
                            in case originalImage s4 of
                                 None \<Rightarrow> (Threw TypeError, s4)
                               | Some orig \<Rightarrow>
                                   (let c = cal (heap s4 orig);
                                        s5 = copySpatial c dup s4;
                                        s6 = (if nFrames (heap s5 dup) > 1
                                              then copyTemporal c dup s5 else s5);
                                        s7 = imgHide dup s6
                                    in (Returned (Obj dup), s7))))))"

section \<open>The alignment workflow (alignSelectedImages)\<close>

text \<open>
  The Montage Assembler on image objects: it reads the images of its arguments, leaves them
  with the current plane its loops set, and its result is a new shown image.
\<close>

definition writeBack :: "ref list \<Rightarrow> image list \<Rightarrow> state \<Rightarrow> state" where
  "writeBack rs imgs s = fold (\<lambda>(r, img) s'. modify r (\<lambda>_. img) s') (zip rs imgs) s"

definition stackImagesHorizontallyOn :: "host \<Rightarrow> ref list \<Rightarrow> state \<Rightarrow> outcome \<times> state" where
  "stackImagesHorizontallyOn h rs s =
     (case stackImagesHorizontally h (map (heap s) rs) of
        (msgs, Inl e) \<Rightarrow> (Threw e, s\<lparr>messages := messages s @ msgs\<rparr>)
      | (msgs, Inr None) \<Rightarrow> (Returned Null, s\<lparr>messages := messages s @ msgs\<rparr>)
      | (msgs, Inr (Some (out, imgs'))) \<Rightarrow>
          (let s1 = writeBack rs imgs' (s\<lparr>messages := messages s @ msgs\<rparr>);
               (r, s2) = alloc out s1
           in (Returned (Obj r), s2\<lparr>current := Some r\<rparr>)))"

text \<open>
  The loop over the alignment choices, with \<open>imagesToAlign\<close> as accumulator. An exception
  of the Provider ends the loop and the function.
\<close>

fun alignLoop :: "host \<Rightarrow> string list \<Rightarrow> ref list \<Rightarrow> state \<Rightarrow> (error + ref list) \<times> state" where
  "alignLoop h [] imagesToAlign s = (Inr imagesToAlign, s)"
| "alignLoop h (selection # rest) imagesToAlign s =
     (if selection = ''Merge'' then
        (case createMergeOnly h False s of
           (Obj mergedImage, s') \<Rightarrow> alignLoop h rest (imagesToAlign @ [mergedImage]) s'
         | (_, s') \<Rightarrow> alignLoop h rest imagesToAlign s')
      else if selection \<noteq> ''None'' then
        (case getChannelImage16OnTheFly h selection s of
           (Threw e, s') \<Rightarrow> (Inl e, s')
         | (Returned (Obj img16), s') \<Rightarrow> alignLoop h rest (imagesToAlign @ [img16]) s'
         | (Returned _, s') \<Rightarrow> alignLoop h rest imagesToAlign s')
      else alignLoop h rest imagesToAlign s)"

definition alignSelectedImages :: "host \<Rightarrow> state \<Rightarrow> outcome \<times> state" where
  "alignSelectedImages h s =
     (case alignLoop h (alignmentChoices s) [] s of
        (Inl e, s1) \<Rightarrow> (Threw e, s1)
      | (Inr imagesToAlign, s1) \<Rightarrow>
          if length imagesToAlign < 2 then
            (Returned Undefined,
             showMessage ''Stacking Error'' ''Need at least 2 images to create a horizontal stack.'' s1)
          else
            (case stackImagesHorizontallyOn h imagesToAlign s1 of
               (Returned (Obj r), s2) \<Rightarrow>
                 (Returned Undefined,
                  ij_selectWindow (title (heap s2 r)) (s2\<lparr>finalAlignedImage := Some r\<rparr>))
             | (Returned _, s2) \<Rightarrow> (Threw TypeError, s2\<lparr>finalAlignedImage := None\<rparr>)
             | (Threw e, s2) \<Rightarrow> (Threw e, s2)))"

section \<open>Predicates and sample values used by the statements\<close>

text \<open>
  The host keeps the current plane of every image inside its stack. \<open>validImage\<close> says so
  of one image value.
\<close>

definition validImage :: "image \<Rightarrow> bool" where
  "validImage img = (1 \<le> slice img \<and> slice img \<le> length (stack img))"

text \<open>The depth the Montage Assembler gives its output, as its branches decide it.\<close>

definition outDepth :: "image list \<Rightarrow> nat" where
  "outDepth images =
     (if list_ex (\<lambda>img. bitDepth img = 24) images then 24
      else if bitDepth (images ! 0) = 16 then 16 else 8)"

text \<open>
  A plain time series: the stack holds exactly one plane per time frame, so plane \<open>f\<close> is
  frame \<open>f\<close>, and the current plane is one of them.
\<close>

definition timeSeries :: "image \<Rightarrow> bool" where
  "timeSeries img = (length (stack img) = nFrames img \<and> 1 \<le> slice img \<and> slice img \<le> nFrames img)"

text \<open>Concrete values: a host that converts nothing and fills with 0, and small images.\<close>

definition sampleCal :: calibration where
  "sampleCal = \<lparr>pixelWidth = 1, pixelHeight = 1, unit = ''pixel'', frameInterval = 0, fps = 0\<rparr>"

definition sampleHost :: host where
  "sampleHost =
     \<lparr>convert = (\<lambda>d d' p. p), fill = (\<lambda>t. 0), newCal = sampleCal,
      dupPlanes = (\<lambda>sel img. stack img), splitPlanes = (\<lambda>img c. stack img),
      mergePlanes = (\<lambda>imgs. concat (map stack imgs)), rgbPlanes = stack,
      dupTitle = (\<lambda>t. t @ ''-1''), mergeCal = (\<lambda>imgs. sampleCal)\<rparr>"

definition ramp :: "nat \<Rightarrow> plane" where
  "ramp k = (\<lambda>x y. k + x + 10 * y)"

definition sampleImage :: "nat \<Rightarrow> nat \<Rightarrow> nat \<Rightarrow> plane list \<Rightarrow> image" where
  "sampleImage w hgt d planes =
     \<lparr>title = ''sample'', width = w, height = hgt, bitDepth = d,
      nChannels = 1, nSlices = 1, nFrames = length planes, slice = 1,
      stack = planes, cal = sampleCal, changes = False, visible = True, closed = False\<rparr>"

text \<open>The montage a call of the Montage Assembler returned, if it returned one.\<close>

definition montageOf :: "message list \<times> (error + (image \<times> image list) option) \<Rightarrow> image option" where
  "montageOf r = (case snd r of Inr (Some (out, images')) \<Rightarrow> Some out | _ \<Rightarrow> None)"

text \<open>
  The Channel Set index an identifier names, as the Provider reads it: the text \<open>Ch\<close>,
  then an integer of at least 1; and the populated entry the identifier resolves to.
\<close>

definition channelIndex :: "string \<Rightarrow> nat option" where
  "channelIndex chStr =
     (if take 2 chStr = ''Ch'' then
        (case parseInt (drop 2 chStr) of
           None \<Rightarrow> None
         | Some n \<Rightarrow> if 1 \<le> n then Some (nat (n - 1)) else None)
      else None)"

definition channelEntry :: "state \<Rightarrow> string \<Rightarrow> ref option" where
  "channelEntry s chStr =
     (case channelIndex chStr of
        None \<Rightarrow> None
      | Some i \<Rightarrow> if i < length (splitInvertedChannels s) then splitInvertedChannels s ! i else None)"

text \<open>
  A source image with a calibration, the script's state right after the dialog is built
  with that image open, and a state as the Channel Extractor leaves it for a 2-channel
  source.
\<close>

definition sampleSource :: "nat \<Rightarrow> nat \<Rightarrow> image" where
  "sampleSource nC nF =
     \<lparr>title = ''cells.tif'', width = 4, height = 3, bitDepth = 16,
      nChannels = nC, nSlices = 1, nFrames = nF, slice = 1,
      stack = replicate (nC * nF) (ramp 0),
      cal = \<lparr>pixelWidth = 7, pixelHeight = 9, unit = ''um'', frameInterval = 5, fps = 2\<rparr>,
      changes = False, visible = True, closed = False\<rparr>"

definition initialState :: "image \<Rightarrow> state" where
  "initialState img =
     \<lparr>heap = (\<lambda>r. img), nextRef = 1, current = Some 0,
      originalImage = None, duplicatedCroppedImage = None,
      splitInvertedChannels = [None, None, None, None],
      splitInvertedChannelsFullStack = [None, None, None, None],
      finalAlignedImage = None,
      mergeCheckboxes = [False, False, False, False],
      alignmentChoices = [''None'', ''None'', ''None'', ''None'', ''None''],
      useFramesCheckbox = False, mergeCount = 1, messages = []\<rparr>"

definition extractedState :: state where
  "extractedState =
     (initialState (sampleSource 2 3))
       \<lparr>nextRef := 3, originalImage := Some 0, duplicatedCroppedImage := Some 0,
        splitInvertedChannels := [Some 1, Some 2, None, None]\<rparr>"

text \<open>A constant plane, and what it is for an image to hold 8-bit samples.\<close>

definition flat :: "nat \<Rightarrow> plane" where
  "flat v = (\<lambda>x y. v)"

definition eightBit :: "image \<Rightarrow> bool" where
  "eightBit img = (bitDepth img = 8 \<and> (\<forall>p\<in>set (stack img). \<forall>x y. p x y \<le> 255))"

text \<open>
  The extracted state with the "use frames" checkbox checked and no merge checkbox checked,
  and the extracted state with the first two merge checkboxes checked, in either mode.
\<close>

definition multiFrameState :: state where
  "multiFrameState = extractedState\<lparr>useFramesCheckbox := True\<rparr>"

definition selectedState :: "bool \<Rightarrow> state" where
  "selectedState useFrames =
     extractedState\<lparr>useFramesCheckbox := useFrames, mergeCheckboxes := [True, True, False, False]\<rparr>"

text \<open>
  The dialog right after start (no original image yet) with "Merge" as first alignment
  choice; the extracted state with three selections of which only \<open>Ch1\<close> resolves to
  an image (no merge checkbox is checked); and the extracted state with two merge
  checkboxes checked and two selections, both of which resolve.
\<close>

definition mergeFirstState :: state where
  "mergeFirstState =
     (initialState (sampleSource 2 1))
       \<lparr>alignmentChoices := [''Merge'', ''None'', ''None'', ''None'', ''None'']\<rparr>"

definition oneResolvedState :: state where
  "oneResolvedState =
     extractedState\<lparr>alignmentChoices := [''Ch1'', ''Ch3'', ''Merge'', ''None'', ''None'']\<rparr>"

definition twoResolvedState :: state where
  "twoResolvedState =
     (selectedState False)\<lparr>alignmentChoices := [''Ch1'', ''Merge'', ''None'', ''None'', ''None'']\<rparr>"

text \<open>
  The planes of time frame \<open>f\<close> of a hyperstack. The host keeps the planes in
  channel-slice-frame order, the order the script's own Z computation relies on.
\<close>

definition framePlanes :: "image \<Rightarrow> nat \<Rightarrow> plane list" where
  "framePlanes img f =
     take (nChannels img * nSlices img) (drop ((f - 1) * (nChannels img * nSlices img)) (stack img))"

text \<open>A 2-channel, 2-frame hyperstack whose four planes hold 10, 20, 30 and 40.\<close>

definition hyperSeries :: image where
  "hyperSeries =
     \<lparr>title = ''hyper'', width = 2, height = 2, bitDepth = 8,
      nChannels = 2, nSlices = 1, nFrames = 2, slice = 1,
      stack = [flat 10, flat 20, flat 30, flat 40], cal = sampleCal,
      changes = False, visible = True, closed = False\<rparr>"

text \<open>The sample at \<open>(x, y)\<close> of frame \<open>f\<close> of the montage a call returned.\<close>

definition montageSample :: "message list \<times> (error + (image \<times> image list) option)
    \<Rightarrow> nat \<Rightarrow> nat \<Rightarrow> nat \<Rightarrow> nat option" where
  "montageSample r f x y =
     (case montageOf r of None \<Rightarrow> None | Some out \<Rightarrow> Some ((stack out ! (f - 1)) x y))"

text \<open>
  The selection the Provider passes to Duplicate for an entry, and the planes its result
  must hold: those of the host's duplicate, converted when the entry is not 16-bit.
\<close>

definition providerSelection :: "state \<Rightarrow> ref \<Rightarrow> dupSel" where
  "providerSelection s vis =
     (if useFramesCheckbox s \<and> nFrames (heap s vis) > 1 then Frames (nFrames (heap s vis))
      else Whole)"

definition providerPlanes :: "host \<Rightarrow> state \<Rightarrow> ref \<Rightarrow> plane list" where
  "providerPlanes h s vis =
     (if bitDepth (heap s vis) = 16 then dupPlanes h (providerSelection s vis) (heap s vis)
      else map (convert h (bitDepth (heap s vis)) 16)
             (dupPlanes h (providerSelection s vis) (heap s vis)))"

text \<open>
  A host whose conversions and selections leave a trace, an extracted 8-bit channel with a
  calibration of its own, and the extracted state holding two such channels.
\<close>

definition tracingHost :: host where
  "tracingHost =
     sampleHost\<lparr>convert := (\<lambda>d d' p x y. 1000 * d' + p x y),
                dupPlanes := (\<lambda>sel img. case sel of Frames n \<Rightarrow> take n (stack img)
                                | _ \<Rightarrow> take 1 (drop (slice img - 1) (stack img)))\<rparr>"

definition sampleChannel :: "nat \<Rightarrow> image" where
  "sampleChannel k =
     \<lparr>title = ''C-TempForMerge_cells.tif'', width = 4, height = 3, bitDepth = 8,
      nChannels = 1, nSlices = 1, nFrames = 3, slice = 1,
      stack = [flat k, flat (k + 1), flat (k + 2)], cal = sampleCal,
      changes = True, visible = True, closed = False\<rparr>"

definition channelState :: "bool \<Rightarrow> state" where
  "channelState useFrames =
     extractedState\<lparr>heap := (heap extractedState)(1 := sampleChannel 10, 2 := sampleChannel 20),
                    useFramesCheckbox := useFrames\<rparr>"

section \<open>The Montage Assembler: proofs\<close>

lemma setSlice_fields [simp]:
  "stack (setSlice n img) = stack img" "width (setSlice n img) = width img"
  "height (setSlice n img) = height img" "bitDepth (setSlice n img) = bitDepth img"
  "nFrames (setSlice n img) = nFrames img" "cal (setSlice n img) = cal img"
  by (simp_all add: setSlice_def)

lemma setSlice_valid: "validImage img \<Longrightarrow> validImage (setSlice n img)"
  by (simp add: setSlice_def validImage_def)

lemma selectFrame_fields [simp]:
  "stack (selectFrame f img) = stack img" "width (selectFrame f img) = width img"
  "height (selectFrame f img) = height img" "bitDepth (selectFrame f img) = bitDepth img"
  "nFrames (selectFrame f img) = nFrames img" "cal (selectFrame f img) = cal img"
  by (simp_all add: selectFrame_def)

lemma selectFrame_valid: "validImage img \<Longrightarrow> validImage (selectFrame f img)"
  by (simp add: selectFrame_def setSlice_valid)

lemma getProcessor_valid:
  "validImage img \<Longrightarrow> \<exists>p. getProcessor img = Some p \<and> pwidth p = width img \<and>
     pheight p = height img \<and> pdepth p = bitDepth img \<and> pix p = stack img ! (slice img - 1)"
  by (simp add: getProcessor_def validImage_def)

lemma insertP_fields [simp]:
  "pwidth (insertP h ip proc x y) = pwidth ip" "pheight (insertP h ip proc x y) = pheight ip"
  "pdepth (insertP h ip proc x y) = pdepth ip"
  by (simp_all add: insertP_def)

lemma insertAll_ok:
  "\<forall>img\<in>set images. validImage (sel img) \<Longrightarrow>
   \<exists>ip'. insertAll h anyRGB sel images ip xOffset = Inr (ip', map sel images) \<and>
     pwidth ip' = pwidth ip \<and> pheight ip' = pheight ip \<and> pdepth ip' = pdepth ip"
proof (induction images arbitrary: ip xOffset)
  case Nil
  then show ?case by simp
next
  case (Cons img0 rest)
  from Cons.prems have v: "validImage (sel img0)" by simp
  then obtain p where p: "getProcessor (sel img0) = Some p"
    using getProcessor_valid by blast
  define proc where "proc = (if anyRGB \<and> bitDepth (sel img0) \<noteq> 24 then convertToRGB h p else p)"
  from Cons.prems have "\<forall>img\<in>set rest. validImage (sel img)" by simp
  from Cons.IH [OF this, of "insertP h ip proc xOffset 0" "xOffset + width (sel img0)"]
  obtain ip' where ip': "insertAll h anyRGB sel rest (insertP h ip proc xOffset 0) (xOffset + width (sel img0))
       = Inr (ip', map sel rest)"
     "pwidth ip' = pwidth ip" "pheight ip' = pheight ip" "pdepth ip' = pdepth ip"
    by auto
  show ?case using p ip' by (simp add: Let_def proc_def)
qed

lemma putProcessor_fields [simp]:
  "width (putProcessor img ip) = width img" "height (putProcessor img ip) = height img"
  "bitDepth (putProcessor img ip) = bitDepth img" "nFrames (putProcessor img ip) = nFrames img"
  "cal (putProcessor img ip) = cal img" "slice (putProcessor img ip) = slice img"
  "length (stack (putProcessor img ip)) = length (stack img)"
  by (simp_all add: putProcessor_def)

lemma putProcessor_valid: "validImage img \<Longrightarrow> validImage (putProcessor img ip)"
  by (simp add: validImage_def)

lemma frameLoop_ok:
  "validImage out \<Longrightarrow> \<forall>img\<in>set images. validImage img \<Longrightarrow>
   \<exists>out' images'. frameLoop h anyRGB fs out images = Inr (out', images') \<and>
     width out' = width out \<and> height out' = height out \<and> bitDepth out' = bitDepth out \<and>
     nFrames out' = nFrames out \<and> cal out' = cal out \<and> length images' = length images \<and>
     (\<forall>i<length images. cal (images' ! i) = cal (images ! i))"
proof (induction fs arbitrary: out images)
  case Nil
  then show ?case by simp
next
  case (Cons f fs)
  have v1: "validImage (setSlice f out)" using Cons.prems(1) by (rule setSlice_valid)
  then obtain ip where ip: "getProcessor (setSlice f out) = Some ip"
    using getProcessor_valid by blast
  have "\<forall>img\<in>set images. validImage (selectFrame f img)"
    using Cons.prems(2) by (simp add: selectFrame_valid)
  from insertAll_ok [OF this, of h anyRGB ip 0]
  obtain ip' where ip': "insertAll h anyRGB (selectFrame f) images ip 0 = Inr (ip', map (selectFrame f) images)"
    by blast
  have v2: "validImage (putProcessor (setSlice f out) ip')" using v1 by (rule putProcessor_valid)
  have v3: "\<forall>img\<in>set (map (selectFrame f) images). validImage img"
    using Cons.prems(2) by (simp add: selectFrame_valid)
  from Cons.IH [OF v2 v3]
  obtain out' images' where r: "frameLoop h anyRGB fs (putProcessor (setSlice f out) ip') (map (selectFrame f) images) = Inr (out', images')"
     "width out' = width out" "height out' = height out" "bitDepth out' = bitDepth out"
     "nFrames out' = nFrames out" "cal out' = cal out" "length images' = length images"
     "\<forall>i<length images. cal (images' ! i) = cal (images ! i)"
    by auto
  show ?case using ip ip' r by simp
qed

lemma foldl_width: "foldl (\<lambda>sum img. sum + width img) a images = a + sum_list (map width images)"
  by (induction images arbitrary: a) simp_all

lemma fold_max_Max: "xs \<noteq> [] \<Longrightarrow> fold max xs (0::nat) = Max (set xs)"
proof -
  assume "xs \<noteq> []"
  have "fold max xs (0::nat) = Max (set (0 # xs))" by (simp only: Max.set_eq_fold)
  also have "\<dots> = Max (set xs)" using \<open>xs \<noteq> []\<close> by (simp add: Max_insert)
  finally show ?thesis .
qed

lemma createImage_fields [simp]:
  "width (createImage h ttl t w hgt) = w" "height (createImage h ttl t w hgt) = hgt"
  "bitDepth (createImage h ttl t w hgt) = typeDepth t"
  "nFrames (createImage h ttl t w hgt) = 1"
  by (simp_all add: createImage_def)

lemma createImage_valid: "validImage (createImage h ttl t w hgt)"
  by (simp add: createImage_def validImage_def)

lemma newHyperstack_fields [simp]:
  "width (newHyperstack h t w hgt n) = w" "height (newHyperstack h t w hgt n) = hgt"
  "bitDepth (newHyperstack h t w hgt n) = typeDepth t"
  "nFrames (newHyperstack h t w hgt n) = n" "length (stack (newHyperstack h t w hgt n)) = n"
  "slice (newHyperstack h t w hgt n) = 1"
  by (simp_all add: newHyperstack_def createImage_def)

lemma newHyperstack_valid: "1 \<le> n \<Longrightarrow> validImage (newHyperstack h t w hgt n)"
  by (simp add: validImage_def)

lemma scanFrames_ge1: "1 \<le> m \<Longrightarrow> 1 \<le> snd (scanFrames images (b, m))"
  by (induction images arbitrary: b m) (auto simp: Let_def)

lemma scanFrames_fst:
  "fst (scanFrames images (b, m)) = (b \<or> (\<exists>img\<in>set images. 1 < nFrames img))"
  by (induction images arbitrary: b m) (auto simp: Let_def)

lemma scanFrames_step:
  "scanFrames (img # rest) (b, m) =
     scanFrames rest (b \<or> 1 < nFrames img, if 1 < nFrames img then max m (nFrames img) else m)"
  by (simp add: Let_def max_def)

lemma Max_insert_nat: "finite S \<Longrightarrow> Max (insert (m::nat) S) = max m (Max (insert 0 S))"
proof -
  assume f: "finite S"
  have "Max (insert m (insert 0 S)) = max m (Max (insert 0 S))"
    using f by (subst Max_insert) simp_all
  moreover have "Max (insert m (insert 0 S)) = Max (insert 0 (insert m S))"
    by (simp add: insert_commute)
  moreover have "Max (insert 0 (insert m S)) = max 0 (Max (insert m S))"
    using f by (subst Max_insert) simp_all
  ultimately show ?thesis by simp
qed

lemma scanFrames_snd:
  "1 \<le> m \<Longrightarrow> snd (scanFrames images (b, m)) = Max (insert m (set (map nFrames images)))"
proof (induction images arbitrary: b m)
  case Nil
  then show ?case by simp
next
  case (Cons img rest)
  let ?S = "set (map nFrames rest)"
  let ?M = "Max (insert 0 ?S)"
  have fin: "finite ?S" by simp
  have set_eq: "insert m (set (map nFrames (img # rest))) = insert (nFrames img) (insert m ?S)"
    by auto
  have "Max (insert (nFrames img) (insert m ?S)) = max (nFrames img) (Max (insert m ?S))"
    using fin by (subst Max_insert) simp_all
  then have goal: "Max (insert m (set (map nFrames (img # rest)))) = max (nFrames img) (max m ?M)"
    unfolding set_eq using Max_insert_nat [OF fin, of m] by simp
  show ?case
  proof (cases "1 < nFrames img")
    case True
    have m': "1 \<le> max m (nFrames img)" using Cons.prems by simp
    have "snd (scanFrames (img # rest) (b, m)) = snd (scanFrames rest (True, max m (nFrames img)))"
      unfolding scanFrames_step using True by simp
    also have "\<dots> = Max (insert (max m (nFrames img)) ?S)"
      by (rule Cons.IH [OF m'])
    also have "\<dots> = max (max m (nFrames img)) ?M"
      by (rule Max_insert_nat [OF fin])
    finally show ?thesis unfolding goal by (simp add: max_def)
  next
    case False
    then have le: "nFrames img \<le> m" using Cons.prems by simp
    have "snd (scanFrames (img # rest) (b, m)) = snd (scanFrames rest (b, m))"
      unfolding scanFrames_step using False by simp
    also have "\<dots> = Max (insert m ?S)"
      by (rule Cons.IH [OF Cons.prems])
    also have "\<dots> = max m ?M"
      by (rule Max_insert_nat [OF fin])
    finally show ?thesis unfolding goal using le by (simp add: max_def)
  qed
qed

lemma scanFrames_none:
  "\<not> fst (scanFrames images (b, m)) \<Longrightarrow> snd (scanFrames images (b, m)) = m"
  by (induction images arbitrary: b m) (auto simp: Let_def scanFrames_fst split: if_splits)

lemma typeDepth_simps [simp]:
  "typeDepth ''RGB'' = 24" "typeDepth ''RGB Color'' = 24"
  "typeDepth ''16-bit black'' = 16" "typeDepth ''8-bit black'' = 8"
  by (simp_all add: typeDepth_def)

lemma timeSeries_valid: "timeSeries img \<Longrightarrow> validImage img"
  by (simp add: timeSeries_def validImage_def)

lemma selectFrame_timeSeries: "timeSeries img \<Longrightarrow> timeSeries (selectFrame f img)"
  by (auto simp: timeSeries_def selectFrame_def setSlice_def)

lemma selectFrame_slice:
  "timeSeries img \<Longrightarrow> 1 \<le> f \<Longrightarrow> slice (selectFrame f img) = min f (nFrames img)"
  by (auto simp: timeSeries_def selectFrame_def setSlice_def)

lemma planeOf_valid: "validImage img \<Longrightarrow> planeOf img = stack img ! (slice img - 1)"
  by (simp add: planeOf_def getProcessor_def validImage_def)

lemma insertAll_left:
  "insertAll h anyRGB sel images ip x0 = Inr (ip', r) \<Longrightarrow> x < x0 \<Longrightarrow> pix ip' x y = pix ip x y"
proof (induction images arbitrary: ip x0 r)
  case Nil
  then show ?case by simp
next
  case (Cons img0 rest)
  from Cons.prems(1) obtain p0 where p0: "getProcessor (sel img0) = Some p0"
    by (auto simp: Let_def split: option.splits)
  define proc where "proc = (if anyRGB \<and> bitDepth (sel img0) \<noteq> 24 then convertToRGB h p0 else p0)"
  define ip1 where "ip1 = insertP h ip proc x0 0"
  from Cons.prems(1) p0 obtain r' where
    rest: "insertAll h anyRGB sel rest ip1 (x0 + width (sel img0)) = Inr (ip', r')"
    by (auto simp: Let_def proc_def ip1_def split: sum.splits)
  have "pix ip' x y = pix ip1 x y"
    using Cons.IH [OF rest] Cons.prems(2) by simp
  also have "\<dots> = pix ip x y" using Cons.prems(2) by (simp add: ip1_def insertP_def)
  finally show ?case .
qed

lemma getProcessor_Some:
  "getProcessor img = Some p \<Longrightarrow> pwidth p = width img \<and> pheight p = height img \<and>
     pdepth p = bitDepth img \<and> pix p = planeOf img"
  by (auto simp: getProcessor_def planeOf_def split: if_splits)

lemma insertAll_content:
  "insertAll h anyRGB sel images ip x0 = Inr (ip', r) \<Longrightarrow> (anyRGB \<longrightarrow> pdepth ip = 24) \<Longrightarrow>
   i < length images \<Longrightarrow> x < width (sel (images ! i)) \<Longrightarrow> y < height (sel (images ! i)) \<Longrightarrow>
   x0 + sum_list (map (\<lambda>img. width (sel img)) (take i images)) + x < pwidth ip \<Longrightarrow>
   y < pheight ip \<Longrightarrow>
   pix ip' (x0 + sum_list (map (\<lambda>img. width (sel img)) (take i images)) + x) y =
     coerce h (bitDepth (sel (images ! i))) (pdepth ip) (planeOf (sel (images ! i))) x y"
proof (induction images arbitrary: ip x0 r i)
  case Nil
  then show ?case by simp
next
  case (Cons img0 rest)
  from Cons.prems(1) obtain p0 where p0: "getProcessor (sel img0) = Some p0"
    by (auto simp: Let_def split: option.splits)
  note p0f = getProcessor_Some [OF p0]
  define proc where "proc = (if anyRGB \<and> bitDepth (sel img0) \<noteq> 24 then convertToRGB h p0 else p0)"
  define ip1 where "ip1 = insertP h ip proc x0 0"
  from Cons.prems(1) p0 obtain r' where
    rest: "insertAll h anyRGB sel rest ip1 (x0 + width (sel img0)) = Inr (ip', r')"
    by (auto simp: Let_def proc_def ip1_def split: sum.splits)
  have procf: "pwidth proc = width (sel img0)" "pheight proc = height (sel img0)"
    using p0f by (simp_all add: proc_def convertToRGB_def)
  have ip1f: "pwidth ip1 = pwidth ip" "pheight ip1 = pheight ip" "pdepth ip1 = pdepth ip"
    by (simp_all add: ip1_def)
  show ?case
  proof (cases i)
    case 0
    have "pix ip' (x0 + x) y = pix ip1 (x0 + x) y"
      using insertAll_left [OF rest, of "x0 + x" y] Cons.prems(4) 0 by simp
    also have "\<dots> = coerce h (pdepth proc) (pdepth ip) (pix proc) x y"
      using Cons.prems 0 procf by (simp add: ip1_def insertP_def)
    also have "\<dots> = coerce h (bitDepth (sel img0)) (pdepth ip) (planeOf (sel img0)) x y"
      using p0f Cons.prems(2) by (auto simp: proc_def convertToRGB_def coerce_def)
    finally show ?thesis using 0 by simp
  next
    case (Suc k)
    have off: "x0 + sum_list (map (\<lambda>img. width (sel img)) (take i (img0 # rest))) + x
       = (x0 + width (sel img0)) + sum_list (map (\<lambda>img. width (sel img)) (take k rest)) + x"
      using Suc by simp
    have "pix ip' ((x0 + width (sel img0)) + sum_list (map (\<lambda>img. width (sel img)) (take k rest)) + x) y =
        coerce h (bitDepth (sel (rest ! k))) (pdepth ip1) (planeOf (sel (rest ! k))) x y"
    proof (rule Cons.IH [OF rest])
      show "anyRGB \<longrightarrow> pdepth ip1 = 24" using Cons.prems(2) ip1f by simp
      show "k < length rest" using Cons.prems(3) Suc by simp
      show "x < width (sel (rest ! k))" using Cons.prems(4) Suc by simp
      show "y < height (sel (rest ! k))" using Cons.prems(5) Suc by simp
      show "x0 + width (sel img0) + sum_list (map (\<lambda>img. width (sel img)) (take k rest)) + x < pwidth ip1"
        using Cons.prems(6) off ip1f by simp
      show "y < pheight ip1" using Cons.prems(7) ip1f by simp
    qed
    then show ?thesis unfolding off using Suc ip1f by simp
  qed
qed

lemma insertAll_images:
  "insertAll h anyRGB sel images ip x0 = Inr (ip', r) \<Longrightarrow> r = map sel images"
proof (induction images arbitrary: ip x0 r)
  case Nil
  then show ?case by simp
next
  case (Cons img0 rest)
  then show ?case
    by (auto simp: Let_def split: option.splits sum.splits)
qed

lemma setSlice_slice: "1 \<le> n \<Longrightarrow> n \<le> length (stack img) \<Longrightarrow> slice (setSlice n img) = n"
  by (simp add: setSlice_def)

lemma frameLoop_untouched:
  "frameLoop h anyRGB fs out images = Inr (out', images') \<Longrightarrow>
   \<forall>f\<in>set fs. 1 \<le> f \<and> f \<le> length (stack out) \<Longrightarrow>
   length (stack out') = length (stack out) \<and>
   (\<forall>k. (\<forall>f\<in>set fs. f \<noteq> k + 1) \<longrightarrow> stack out' ! k = stack out ! k)"
proof (induction fs arbitrary: out images)
  case Nil
  then show ?case by simp
next
  case (Cons g fs)
  define out1 where "out1 = setSlice g out"
  from Cons.prems(1) obtain ip where ip: "getProcessor out1 = Some ip"
    by (auto simp: out1_def Let_def split: option.splits)
  from Cons.prems(1) ip obtain ip' images1 where
    ins: "insertAll h anyRGB (selectFrame g) images ip 0 = Inr (ip', images1)"
    by (auto simp: out1_def Let_def split: sum.splits)
  define out2 where "out2 = putProcessor out1 ip'"
  from Cons.prems(1) ip ins have rest: "frameLoop h anyRGB fs out2 images1 = Inr (out', images')"
    by (simp add: out1_def out2_def Let_def)
  have g: "1 \<le> g" "g \<le> length (stack out)" using Cons.prems(2) by simp_all
  have sl: "slice out1 = g" unfolding out1_def using g by (rule setSlice_slice)
  have st2: "stack out2 = (stack out)[g - 1 := pix ip']"
    using sl by (simp add: out2_def putProcessor_def out1_def)
  have "\<forall>f\<in>set fs. 1 \<le> f \<and> f \<le> length (stack out2)" using Cons.prems(2) st2 by simp
  from Cons.IH [OF rest this]
  have ih: "length (stack out') = length (stack out2)"
    "\<And>k. (\<forall>f\<in>set fs. f \<noteq> k + 1) \<Longrightarrow> stack out' ! k = stack out2 ! k"
    by simp_all
  show ?case
  proof (intro conjI allI impI)
    show "length (stack out') = length (stack out)" using ih(1) st2 by simp
  next
    fix k assume k: "\<forall>f\<in>set (g # fs). f \<noteq> k + 1"
    then have "stack out' ! k = stack out2 ! k" using ih(2) by simp
    moreover have "g - 1 \<noteq> k" using k g by auto
    ultimately show "stack out' ! k = stack out ! k" using st2 by simp
  qed
qed

lemma frameLoop_frames:
  "frameLoop h anyRGB fs out images = Inr (out', images') \<Longrightarrow>
   \<forall>img\<in>set images. timeSeries img \<Longrightarrow> distinct fs \<Longrightarrow>
   \<forall>f\<in>set fs. 1 \<le> f \<and> f \<le> length (stack out) \<Longrightarrow>
   anyRGB \<longrightarrow> bitDepth out = 24 \<Longrightarrow>
   f \<in> set fs \<Longrightarrow> i < length images \<Longrightarrow>
   x < width (images ! i) \<Longrightarrow> y < height (images ! i) \<Longrightarrow>
   sum_list (map width (take i images)) + x < width out \<Longrightarrow> y < height out \<Longrightarrow>
   (stack out' ! (f - 1)) (sum_list (map width (take i images)) + x) y =
     coerce h (bitDepth (images ! i)) (bitDepth out)
       (stack (images ! i) ! (min f (nFrames (images ! i)) - 1)) x y"
proof (induction fs arbitrary: out images)
  case Nil
  then show ?case by simp
next
  case (Cons g fs)
  define out1 where "out1 = setSlice g out"
  from Cons.prems(1) obtain ip where ip: "getProcessor out1 = Some ip"
    by (auto simp: out1_def Let_def split: option.splits)
  from Cons.prems(1) ip obtain ip' images1 where
    ins: "insertAll h anyRGB (selectFrame g) images ip 0 = Inr (ip', images1)"
    by (auto simp: out1_def Let_def split: sum.splits)
  define out2 where "out2 = putProcessor out1 ip'"
  from Cons.prems(1) ip ins have rest: "frameLoop h anyRGB fs out2 images1 = Inr (out', images')"
    by (simp add: out1_def out2_def Let_def)
  have im1: "images1 = map (selectFrame g) images" using ins by (rule insertAll_images)
  have g: "1 \<le> g" "g \<le> length (stack out)" using Cons.prems(4) by simp_all
  have sl: "slice out1 = g" unfolding out1_def using g by (rule setSlice_slice)
  have st2: "stack out2 = (stack out)[g - 1 := pix ip']"
    using sl by (simp add: out2_def putProcessor_def out1_def)
  have o2: "width out2 = width out" "height out2 = height out" "bitDepth out2 = bitDepth out"
    by (simp_all add: out2_def out1_def)
  have ipf: "pwidth ip = width out" "pheight ip = height out" "pdepth ip = bitDepth out"
    using getProcessor_Some [OF ip] by (simp_all add: out1_def)
  have rng: "\<forall>f\<in>set fs. 1 \<le> f \<and> f \<le> length (stack out2)" using Cons.prems(4) st2 by simp
  have ts: "timeSeries (images ! i)" using Cons.prems(2,7) by simp
  have wsum: "sum_list (map (\<lambda>img. width (selectFrame g img)) (take i images))
     = sum_list (map width (take i images))" by simp
  show ?case
  proof (cases "f = g")
    case True
    have nin: "\<forall>f'\<in>set fs. f' \<noteq> (g - 1) + 1" using Cons.prems(3) g by auto
    have "stack out' ! (g - 1) = stack out2 ! (g - 1)"
      using frameLoop_untouched [OF rest rng] nin by blast
    also have "\<dots> = pix ip'" using st2 g by simp
    finally have e1: "stack out' ! (f - 1) = pix ip'" using True by simp
    have "pix ip' (0 + sum_list (map (\<lambda>img. width (selectFrame g img)) (take i images)) + x) y =
      coerce h (bitDepth (selectFrame g (images ! i))) (pdepth ip)
        (planeOf (selectFrame g (images ! i))) x y"
    proof (rule insertAll_content [OF ins])
      show "anyRGB \<longrightarrow> pdepth ip = 24" using Cons.prems(5) ipf by simp
      show "i < length images" by (rule Cons.prems(7))
      show "x < width (selectFrame g (images ! i))" using Cons.prems(8) by simp
      show "y < height (selectFrame g (images ! i))" using Cons.prems(9) by simp
      show "0 + sum_list (map (\<lambda>img. width (selectFrame g img)) (take i images)) + x < pwidth ip"
        using Cons.prems(10) ipf wsum by simp
      show "y < pheight ip" using Cons.prems(11) ipf by simp
    qed
    moreover have "planeOf (selectFrame g (images ! i)) = stack (images ! i) ! (min g (nFrames (images ! i)) - 1)"
      using planeOf_valid [OF timeSeries_valid [OF selectFrame_timeSeries [OF ts]], of g]
        selectFrame_slice [OF ts g(1)] by simp
    ultimately show ?thesis using e1 True ipf wsum by simp
  next
    case False
    then have fin: "f \<in> set fs" using Cons.prems(6) by simp
    have i1: "i < length images1" using Cons.prems(7) im1 by simp
    have nth1: "images1 ! i = selectFrame g (images ! i)" using Cons.prems(7) im1 by simp
    have w1: "sum_list (map width (take i images1)) = sum_list (map width (take i images))"
      by (simp add: im1 take_map comp_def)
    have "(stack out' ! (f - 1)) (sum_list (map width (take i images1)) + x) y =
       coerce h (bitDepth (images1 ! i)) (bitDepth out2)
         (stack (images1 ! i) ! (min f (nFrames (images1 ! i)) - 1)) x y"
    proof (rule Cons.IH [OF rest _ _ rng _ fin i1])
      show "\<forall>img\<in>set images1. timeSeries img"
        using Cons.prems(2) by (simp add: im1 selectFrame_timeSeries)
      show "distinct fs" using Cons.prems(3) by simp
      show "anyRGB \<longrightarrow> bitDepth out2 = 24" using Cons.prems(5) o2 by simp
      show "x < width (images1 ! i)" using Cons.prems(8) nth1 by simp
      show "y < height (images1 ! i)" using Cons.prems(9) nth1 by simp
      show "sum_list (map width (take i images1)) + x < width out2"
        using Cons.prems(10) w1 o2 by simp
      show "y < height out2" using Cons.prems(11) o2 by simp
    qed
    then show ?thesis using w1 nth1 o2 by simp
  qed
qed

lemma sum_take_le:
  "i < length (xs :: nat list) \<Longrightarrow> sum_list (take i xs) + xs ! i \<le> sum_list xs"
proof (induction xs arbitrary: i)
  case Nil
  then show ?case by simp
next
  case (Cons a xs)
  then show ?case by (cases i) auto
qed

lemma stack_struct:
  assumes len: "2 \<le> length images" and val: "\<forall>img\<in>set images. validImage img"
  shows "\<exists>out images' blank filled.
     stackImagesHorizontally h images = ([], Inr (Some (out, images'))) \<and>
     width blank = sum_list (map width images) \<and>
     height blank = Max (set (map height images)) \<and>
     bitDepth blank = outDepth images \<and>
     validImage blank \<and>
     width out = width blank \<and> height out = height blank \<and> bitDepth out = bitDepth blank \<and>
     nFrames out = snd (scanFrames images (False, 1)) \<and>
     stack out = stack filled \<and> visible out \<and>
     (if fst (scanFrames images (False, 1))
      then length (stack blank) = snd (scanFrames images (False, 1)) \<and>
           frameLoop h (list_ex (\<lambda>img. bitDepth img = 24) images)
             [1..<snd (scanFrames images (False, 1)) + 1] blank images = Inr (filled, images')
      else (\<exists>ip ip'. getProcessor blank = Some ip \<and> length (stack blank) = 1 \<and> slice blank = 1 \<and>
             insertAll h (list_ex (\<lambda>img. bitDepth img = 24) images) (\<lambda>img. img) images ip 0
               = Inr (ip', images') \<and>
             filled = putProcessor blank ip'))"
proof -
  obtain hf mf where sc: "scanFrames images (False, 1) = (hf, mf)"
    by (cases "scanFrames images (False, 1)")
  have mf1: "1 \<le> mf" using scanFrames_ge1 [of 1 images False] sc by simp
  define w where "w = foldl (\<lambda>sum img. sum + width img) 0 images"
  define hgt where "hgt = mathMax (map height images)"
  define anyRGB where "anyRGB = list_ex (\<lambda>img. bitDepth img = 24) images"
  define bd where "bd = bitDepth (images ! 0)"
  have w: "w = sum_list (map width images)" by (simp add: w_def foldl_width)
  have ne: "map height images \<noteq> []" using len by auto
  have hgt: "hgt = Max (set (map height images))"
    unfolding hgt_def mathMax_def by (rule fold_max_Max [OF ne])
  have od: "outDepth images = (if anyRGB then 24 else if bd = 16 then 16 else 8)"
    by (simp add: outDepth_def anyRGB_def bd_def)
  show ?thesis
  proof (cases hf)
    case True
    define blank where "blank = (if anyRGB then newHyperstack h ''RGB'' w hgt mf
                               else if bd = 16 then newHyperstack h ''16-bit black'' w hgt mf
                               else newHyperstack h ''8-bit black'' w hgt mf)"
    have bv: "validImage blank" using mf1 by (simp add: blank_def newHyperstack_valid)
    have bf: "width blank = w" "height blank = hgt" "nFrames blank = mf"
       "bitDepth blank = outDepth images" "length (stack blank) = mf"
      by (simp_all add: blank_def od)
    from frameLoop_ok [OF bv val, of h anyRGB "[1..<mf + 1]"]
    obtain out' images' where r: "frameLoop h anyRGB [1..<mf + 1] blank images = Inr (out', images')"
      "width out' = width blank" "height out' = height blank" "bitDepth out' = bitDepth blank"
      "nFrames out' = nFrames blank"
      by blast
    define out where "out = out'\<lparr>cal := copyCal True (cal (images' ! 0)) (cal out'), visible := True\<rparr>"
    have res: "stackImagesHorizontally h images = ([], Inr (Some (out, images')))"
      unfolding stackImagesHorizontally_def Let_def sc prod.case w_def [symmetric] hgt_def [symmetric]
            anyRGB_def [symmetric] bd_def [symmetric]
      unfolding blank_def [symmetric] r(1) out_def
      using len True by simp
    have "stackImagesHorizontally h images = ([], Inr (Some (out, images'))) \<and>
     width blank = sum_list (map width images) \<and>
     height blank = Max (set (map height images)) \<and>
     bitDepth blank = outDepth images \<and>
     validImage blank \<and>
     width out = width blank \<and> height out = height blank \<and> bitDepth out = bitDepth blank \<and>
     nFrames out = snd (scanFrames images (False, 1)) \<and>
     stack out = stack out' \<and> visible out \<and>
     (if fst (scanFrames images (False, 1))
      then length (stack blank) = snd (scanFrames images (False, 1)) \<and>
           frameLoop h (list_ex (\<lambda>img. bitDepth img = 24) images)
             [1..<snd (scanFrames images (False, 1)) + 1] blank images = Inr (out', images')
      else (\<exists>ip ip'. getProcessor blank = Some ip \<and> length (stack blank) = 1 \<and> slice blank = 1 \<and>
             insertAll h (list_ex (\<lambda>img. bitDepth img = 24) images) (\<lambda>img. img) images ip 0
               = Inr (ip', images') \<and>
             out' = putProcessor blank ip'))"
      unfolding sc fst_conv snd_conv anyRGB_def [symmetric]
      using res r bf w hgt bv True by (simp add: out_def)
    then show ?thesis by blast
  next
    case False
    define blank where "blank = (if anyRGB then createImage h ''Stacked'' ''RGB Color'' w hgt
                               else if bd = 16 then createImage h ''Stacked'' ''16-bit black'' w hgt
                               else createImage h ''Stacked'' ''8-bit black'' w hgt)"
    have bv: "validImage blank" by (simp add: blank_def createImage_valid)
    have bf: "width blank = w" "height blank = hgt" "nFrames blank = 1"
       "bitDepth blank = outDepth images" "length (stack blank) = 1" "slice blank = 1"
      by (simp_all add: blank_def od createImage_def)
    obtain ip where ip: "getProcessor blank = Some ip" using getProcessor_valid [OF bv] by blast
    have "\<forall>img\<in>set images. validImage ((\<lambda>img. img) img)" using val by simp
    from insertAll_ok [OF this, of h anyRGB ip 0]
    obtain ip' where ip': "insertAll h anyRGB (\<lambda>img. img) images ip 0 = Inr (ip', images)"
      by auto
    have mf: "mf = 1" using scanFrames_none [of images False 1] False sc by simp
    define filled where "filled = putProcessor blank ip'"
    define out where "out = filled\<lparr>cal := copyCal False (cal (images ! 0)) (cal filled), visible := True\<rparr>"
    have res: "stackImagesHorizontally h images = ([], Inr (Some (out, images)))"
      unfolding stackImagesHorizontally_def Let_def sc prod.case w_def [symmetric] hgt_def [symmetric]
            anyRGB_def [symmetric] bd_def [symmetric]
      unfolding blank_def [symmetric] out_def filled_def
      using len False by (simp add: ip ip')
    have "stackImagesHorizontally h images = ([], Inr (Some (out, images))) \<and>
     width blank = sum_list (map width images) \<and>
     height blank = Max (set (map height images)) \<and>
     bitDepth blank = outDepth images \<and>
     validImage blank \<and>
     width out = width blank \<and> height out = height blank \<and> bitDepth out = bitDepth blank \<and>
     nFrames out = snd (scanFrames images (False, 1)) \<and>
     stack out = stack filled \<and> visible out \<and>
     (if fst (scanFrames images (False, 1))
      then length (stack blank) = snd (scanFrames images (False, 1)) \<and>
           frameLoop h (list_ex (\<lambda>img. bitDepth img = 24) images)
             [1..<snd (scanFrames images (False, 1)) + 1] blank images = Inr (filled, images)
      else (\<exists>ip ip'. getProcessor blank = Some ip \<and> length (stack blank) = 1 \<and> slice blank = 1 \<and>
             insertAll h (list_ex (\<lambda>img. bitDepth img = 24) images) (\<lambda>img. img) images ip 0
               = Inr (ip', images) \<and>
             filled = putProcessor blank ip'))"
      unfolding sc fst_conv snd_conv anyRGB_def [symmetric]
      using res bf w hgt bv False ip ip' mf by (simp add: out_def filled_def)
    then show ?thesis by blast
  qed
qed

lemma maxFrames_timeSeries:
  assumes ne: "images \<noteq> []" and ts: "\<forall>img\<in>set images. timeSeries img"
  shows "snd (scanFrames images (False, 1)) = Max (set (map nFrames images))"
proof -
  let ?S = "set (map nFrames images)"
  have fin: "finite ?S" and nes: "?S \<noteq> {}" using ne by simp_all
  have ge: "\<forall>n\<in>?S. 1 \<le> n" using ts by (auto simp: timeSeries_def)
  have "1 \<le> Max ?S" using fin nes ge by (meson Max_in)
  then have "Max (insert 1 ?S) = Max ?S" using fin nes by (simp add: max_absorb2)
  then show ?thesis using scanFrames_snd [of 1 images False] by simp
qed

text \<open>
  Claim C1, as the code has it. For at least 2 inputs, each holding exactly one plane per
  time frame (a plain time series), the montage has as many frames as the longest input, and
  in every output frame \<open>f\<close> the block at the horizontal offset "sum of the widths of the
  preceding inputs" is the depth-converted copy of input \<open>i\<close>'s frame \<open>f\<close>, or of its
  last frame when it has fewer than \<open>f\<close> frames.
\<close>

theorem montage_content:
  assumes len: "2 \<le> length images" and ts: "\<forall>img\<in>set images. timeSeries img"
  shows "\<exists>out images'. stackImagesHorizontally h images = ([], Inr (Some (out, images'))) \<and>
     nFrames out = Max (set (map nFrames images)) \<and> length (stack out) = nFrames out \<and>
     (\<forall>i f x y. i < length images \<and> 1 \<le> f \<and> f \<le> nFrames out \<and>
        x < width (images ! i) \<and> y < height (images ! i) \<longrightarrow>
        (stack out ! (f - 1)) (sum_list (map width (take i images)) + x) y =
          coerce h (bitDepth (images ! i)) (bitDepth out)
            (stack (images ! i) ! (min f (nFrames (images ! i)) - 1)) x y)"
proof -
  have val: "\<forall>img\<in>set images. validImage img" using ts timeSeries_valid by blast
  have ne: "images \<noteq> []" using len by auto
  let ?any = "list_ex (\<lambda>img. bitDepth img = 24) images"
  let ?mf = "snd (scanFrames images (False, 1))"
  from stack_struct [OF len val, of h]
  obtain out images' blank filled where
    res: "stackImagesHorizontally h images = ([], Inr (Some (out, images')))" and
    bw: "width blank = sum_list (map width images)" and
    bh: "height blank = Max (set (map height images))" and
    bd: "bitDepth blank = outDepth images" and
    bv: "validImage blank" and
    ob: "bitDepth out = bitDepth blank" and
    nf: "nFrames out = ?mf" and
    st: "stack out = stack filled" and
    br: "if fst (scanFrames images (False, 1))
      then length (stack blank) = ?mf \<and>
           frameLoop h ?any [1..<?mf + 1] blank images = Inr (filled, images')
      else (\<exists>ip ip'. getProcessor blank = Some ip \<and> length (stack blank) = 1 \<and> slice blank = 1 \<and>
             insertAll h ?any (\<lambda>img. img) images ip 0 = Inr (ip', images') \<and>
             filled = putProcessor blank ip')"
    by blast
  have anyd: "?any \<longrightarrow> bitDepth blank = 24" using bd by (simp add: outDepth_def)
  have inW: "sum_list (map width (take i images)) + x < width blank"
    if "i < length images" "x < width (images ! i)" for i x
  proof -
    have "sum_list (take i (map width images)) + map width images ! i \<le> sum_list (map width images)"
      using that(1) by (intro sum_take_le) simp
    then show ?thesis using that bw by (simp add: take_map)
  qed
  have inH: "y < height blank" if "i < length images" "y < height (images ! i)" for i y
  proof -
    have "height (images ! i) \<in> set (map height images)" using that(1) by simp
    then have "height (images ! i) \<le> Max (set (map height images))" by (intro Max_ge) simp_all
    then have "y < Max (set (map height images))" using that(2) by (rule less_le_trans [rotated])
    then show ?thesis using bh by simp
  qed
  have mfmax: "?mf = Max (set (map nFrames images))" by (rule maxFrames_timeSeries [OF ne ts])
  show ?thesis
  proof (cases "fst (scanFrames images (False, 1))")
    case True
    from br True have bl: "length (stack blank) = ?mf"
      and fl: "frameLoop h ?any [1..<?mf + 1] blank images = Inr (filled, images')"
      by simp_all
    have rng: "\<forall>f\<in>set [1..<?mf + 1]. 1 \<le> f \<and> f \<le> length (stack blank)" using bl by auto
    have lenf: "length (stack filled) = length (stack blank)"
      using frameLoop_untouched [OF fl rng] by simp
    have content: "(stack out ! (f - 1)) (sum_list (map width (take i images)) + x) y =
          coerce h (bitDepth (images ! i)) (bitDepth out)
            (stack (images ! i) ! (min f (nFrames (images ! i)) - 1)) x y"
      if "i < length images" "1 \<le> f" "f \<le> nFrames out" "x < width (images ! i)"
         "y < height (images ! i)" for i f x y
    proof -
      have fin: "f \<in> set [1..<?mf + 1]" using that(2,3) nf by auto
      have "(stack filled ! (f - 1)) (sum_list (map width (take i images)) + x) y =
        coerce h (bitDepth (images ! i)) (bitDepth blank)
          (stack (images ! i) ! (min f (nFrames (images ! i)) - 1)) x y"
        by (rule frameLoop_frames [OF fl ts _ rng anyd fin that(1,4,5) inW [OF that(1,4)] inH [OF that(1,5)]])
           simp
      then show ?thesis using st ob by simp
    qed
    have lo: "length (stack out) = nFrames out" using st lenf bl nf by simp
    show ?thesis
    proof (intro exI conjI allI impI)
      show "stackImagesHorizontally h images = ([], Inr (Some (out, images')))" by (rule res)
      show "nFrames out = Max (set (map nFrames images))" using nf mfmax by simp
      show "length (stack out) = nFrames out" by (rule lo)
      fix i f x y
      assume "i < length images \<and> 1 \<le> f \<and> f \<le> nFrames out \<and>
        x < width (images ! i) \<and> y < height (images ! i)"
      then show "(stack out ! (f - 1)) (sum_list (map width (take i images)) + x) y =
          coerce h (bitDepth (images ! i)) (bitDepth out)
            (stack (images ! i) ! (min f (nFrames (images ! i)) - 1)) x y"
        using content by simp
    qed
  next
    case False
    from br False obtain ip ip' where
      ip: "getProcessor blank = Some ip" and bl: "length (stack blank) = 1" and
      sb: "slice blank = 1" and
      ins: "insertAll h ?any (\<lambda>img. img) images ip 0 = Inr (ip', images')" and
      fil: "filled = putProcessor blank ip'"
      by auto
    have mf1: "?mf = 1" using scanFrames_none [OF False] by simp
    have sf: "stack filled = [pix ip']"
      using bl sb by (cases "stack blank") (simp_all add: fil putProcessor_def)
    have ipf: "pwidth ip = width blank" "pheight ip = height blank" "pdepth ip = bitDepth blank"
      using getProcessor_Some [OF ip] by simp_all
    have one: "nFrames img = 1 \<and> slice img = 1" if "img \<in> set images" for img
    proof -
      have "\<not> 1 < nFrames img" using False that by (auto simp: scanFrames_fst)
      then show ?thesis using ts that by (auto simp: timeSeries_def)
    qed
    have content: "(stack out ! (f - 1)) (sum_list (map width (take i images)) + x) y =
          coerce h (bitDepth (images ! i)) (bitDepth out)
            (stack (images ! i) ! (min f (nFrames (images ! i)) - 1)) x y"
      if "i < length images" "1 \<le> f" "f \<le> nFrames out" "x < width (images ! i)"
         "y < height (images ! i)" for i f x y
    proof -
      have f1: "f = 1" using that(2,3) nf mf1 by simp
      have mem: "images ! i \<in> set images" using that(1) by simp
      have "pix ip' (0 + sum_list (map (\<lambda>img. width ((\<lambda>img. img) img)) (take i images)) + x) y =
        coerce h (bitDepth ((\<lambda>img. img) (images ! i))) (pdepth ip)
          (planeOf ((\<lambda>img. img) (images ! i))) x y"
      proof (rule insertAll_content [OF ins])
        show "?any \<longrightarrow> pdepth ip = 24" using anyd ipf by simp
        show "i < length images" by (rule that(1))
        show "x < width ((\<lambda>img. img) (images ! i))" using that(4) by simp
        show "y < height ((\<lambda>img. img) (images ! i))" using that(5) by simp
        show "0 + sum_list (map (\<lambda>img. width ((\<lambda>img. img) img)) (take i images)) + x < pwidth ip"
          using inW [OF that(1,4)] ipf by simp
        show "y < pheight ip" using inH [OF that(1,5)] ipf by simp
      qed
      moreover have "planeOf (images ! i) = stack (images ! i) ! 0"
        using planeOf_valid [of "images ! i"] val mem one [OF mem] by simp
      ultimately show ?thesis using st sf f1 ipf ob one [OF mem] by simp
    qed
    have lo: "length (stack out) = nFrames out" using st sf nf mf1 by simp
    show ?thesis
    proof (intro exI conjI allI impI)
      show "stackImagesHorizontally h images = ([], Inr (Some (out, images')))" by (rule res)
      show "nFrames out = Max (set (map nFrames images))" using nf mfmax by simp
      show "length (stack out) = nFrames out" by (rule lo)
      fix i f x y
      assume "i < length images \<and> 1 \<le> f \<and> f \<le> nFrames out \<and>
        x < width (images ! i) \<and> y < height (images ! i)"
      then show "(stack out ! (f - 1)) (sum_list (map width (take i images)) + x) y =
          coerce h (bitDepth (images ! i)) (bitDepth out)
            (stack (images ! i) ! (min f (nFrames (images ! i)) - 1)) x y"
        using content by simp
    qed
  qed
qed

lemma stack_basic:
  assumes "2 \<le> length images" and "\<forall>img\<in>set images. validImage img"
  shows "\<exists>out images'. stackImagesHorizontally h images = ([], Inr (Some (out, images'))) \<and>
     width out = sum_list (map width images) \<and>
     height out = Max (set (map height images)) \<and>
     bitDepth out = outDepth images \<and> visible out"
proof -
  let ?any = "list_ex (\<lambda>img. bitDepth img = 24) images"
  let ?mf = "snd (scanFrames images (False, 1))"
  from stack_struct [OF assms, of h]
  obtain out images' blank filled where
    r: "stackImagesHorizontally h images = ([], Inr (Some (out, images')))" and
    b: "width blank = sum_list (map width images)" "height blank = Max (set (map height images))"
       "bitDepth blank = outDepth images" and
    o: "width out = width blank" "height out = height blank" "bitDepth out = bitDepth blank" and
    vis: "visible out" and
    br: "if fst (scanFrames images (False, 1))
      then length (stack blank) = ?mf \<and>
           frameLoop h ?any [1..<?mf + 1] blank images = Inr (filled, images')
      else (\<exists>ip ip'. getProcessor blank = Some ip \<and> length (stack blank) = 1 \<and> slice blank = 1 \<and>
             insertAll h ?any (\<lambda>img. img) images ip 0 = Inr (ip', images') \<and>
             filled = putProcessor blank ip')"
    by blast
  have "stackImagesHorizontally h images = ([], Inr (Some (out, images'))) \<and>
     width out = sum_list (map width images) \<and>
     height out = Max (set (map height images)) \<and>
     bitDepth out = outDepth images \<and> visible out"
    using r b o vis by simp
  then show ?thesis by (intro exI)
qed

text \<open>
  Claim C2. With fewer than 2 images the Montage Assembler returns null and shows the
  "Stacking Error" message; with at least 2 (valid) images it returns a montage whose width
  is the sum of the input widths and whose height is the maximum of the input heights.
\<close>

theorem montage_dimensions:
  "(length images < 2 \<longrightarrow> stackImagesHorizontally h images = ([stackingError], Inr None)) \<and>
   (2 \<le> length images \<and> (\<forall>img\<in>set images. validImage img) \<longrightarrow>
      (\<exists>out images'. stackImagesHorizontally h images = ([], Inr (Some (out, images'))) \<and>
         width out = sum_list (map width images) \<and>
         height out = Max (set (map height images))))"
proof (intro conjI impI)
  assume "length images < 2"
  then show "stackImagesHorizontally h images = ([stackingError], Inr None)"
    by (simp add: stackImagesHorizontally_def)
next
  assume a: "2 \<le> length images \<and> (\<forall>img\<in>set images. validImage img)"
  then have l: "2 \<le> length images" and v: "\<forall>img\<in>set images. validImage img" by simp_all
  from stack_basic [OF l v, of h]
  show "\<exists>out images'. stackImagesHorizontally h images = ([], Inr (Some (out, images'))) \<and>
         width out = sum_list (map width images) \<and>
         height out = Max (set (map height images))"
    by blast
qed

text \<open>One input is rejected; inputs of widths 100 and 150 and height 50 give 250 by 50.\<close>

theorem montage_dimensions_witness:
  "stackImagesHorizontally sampleHost [sampleImage 100 50 16 [ramp 0]] = ([stackingError], Inr None) \<and>
   (\<exists>out images'. stackImagesHorizontally sampleHost
        [sampleImage 100 50 16 [ramp 0], sampleImage 150 50 16 [ramp 1]]
      = ([], Inr (Some (out, images'))) \<and> width out = 250 \<and> height out = 50)"
  using montage_dimensions [of "[sampleImage 100 50 16 [ramp 0]]" sampleHost]
    montage_dimensions [of "[sampleImage 100 50 16 [ramp 0], sampleImage 150 50 16 [ramp 1]]" sampleHost]
  by (simp add: sampleImage_def validImage_def)

text \<open>
  Claim C4, as the code has it. The output is 24-bit when some input is 24-bit. Otherwise it
  is 16-bit when the first input is 16-bit, and 8-bit for every other depth of the first
  input: it has the first input's depth exactly when that depth is 8 or 16.
\<close>

theorem montage_depth:
  assumes "2 \<le> length images" and "\<forall>img\<in>set images. validImage img"
  shows "\<exists>out images'. stackImagesHorizontally h images = ([], Inr (Some (out, images'))) \<and>
     bitDepth out = (if \<exists>img\<in>set images. bitDepth img = 24 then 24
                     else if bitDepth (images ! 0) = 16 then 16 else 8)"
proof -
  from stack_basic [OF assms, of h]
  obtain out images' where
    "stackImagesHorizontally h images = ([], Inr (Some (out, images')))"
    "bitDepth out = outDepth images"
    by blast
  then have "stackImagesHorizontally h images = ([], Inr (Some (out, images'))) \<and>
     bitDepth out = (if \<exists>img\<in>set images. bitDepth img = 24 then 24
                     else if bitDepth (images ! 0) = 16 then 16 else 8)"
    by (simp add: outDepth_def list_ex_iff)
  then show ?thesis by (intro exI)
qed

text \<open>An 8-bit and a 24-bit input give a 24-bit montage.\<close>

theorem montage_depth_witness:
  "\<exists>out images'. stackImagesHorizontally sampleHost
        [sampleImage 4 4 8 [ramp 0], sampleImage 4 4 24 [ramp 1]]
      = ([], Inr (Some (out, images'))) \<and> bitDepth out = 24"
  using montage_depth [of "[sampleImage 4 4 8 [ramp 0], sampleImage 4 4 24 [ramp 1]]" sampleHost]
  by (simp add: sampleImage_def validImage_def)

text \<open>
  Claim C4 as stated fails for a first input that is neither 8-bit nor 16-bit: a 32-bit
  first input and an 8-bit second input (no 24-bit input) give an 8-bit montage.
\<close>

theorem montage_depth_counterexample:
  "map_option bitDepth (montageOf (stackImagesHorizontally sampleHost
      [sampleImage 4 4 32 [ramp 0], sampleImage 4 4 8 [ramp 1]])) = Some 8 \<and>
   bitDepth (sampleImage 4 4 32 [ramp 0]) = 32 \<and>
   bitDepth (sampleImage 4 4 8 [ramp 1]) = 8"
  by (simp add: montageOf_def stackImagesHorizontally_def sampleImage_def Let_def mathMax_def
      createImage_def typeDepth_def getProcessor_def putProcessor_def convertToRGB_def)

text \<open>
  Frame counts 1 and 3: the montage has 3 frames, its frames 2 and 3 repeat the first
  input's only frame in the first input's region, and the second input's frame 2 sits at
  offset 2.
\<close>

theorem montage_content_witness:
  "\<exists>out images'. stackImagesHorizontally sampleHost
        [sampleImage 2 2 8 [ramp 0], sampleImage 3 2 8 [ramp 100, ramp 200, ramp 300]]
      = ([], Inr (Some (out, images'))) \<and> nFrames out = 3 \<and>
      (stack out ! 1) 1 1 = ramp 0 1 1 \<and> (stack out ! 2) 1 1 = ramp 0 1 1 \<and>
      (stack out ! 1) 4 0 = ramp 200 2 0"
proof -
  let ?a = "sampleImage 2 2 8 [ramp 0]"
  let ?b = "sampleImage 3 2 8 [ramp 100, ramp 200, ramp 300]"
  have len: "2 \<le> length [?a, ?b]" by simp
  have ts: "\<forall>img\<in>set [?a, ?b]. timeSeries img" by (simp add: timeSeries_def sampleImage_def)
  from montage_content [OF len ts, of sampleHost]
  obtain out images' where
    res: "stackImagesHorizontally sampleHost [?a, ?b] = ([], Inr (Some (out, images')))" and
    nf: "nFrames out = Max (set (map nFrames [?a, ?b]))" and
    c: "\<forall>i f x y. i < length [?a, ?b] \<and> 1 \<le> f \<and> f \<le> nFrames out \<and>
        x < width ([?a, ?b] ! i) \<and> y < height ([?a, ?b] ! i) \<longrightarrow>
        (stack out ! (f - 1)) (sum_list (map width (take i [?a, ?b])) + x) y =
          coerce sampleHost (bitDepth ([?a, ?b] ! i)) (bitDepth out)
            (stack ([?a, ?b] ! i) ! (min f (nFrames ([?a, ?b] ! i)) - 1)) x y"
    by blast
  have nf3: "nFrames out = 3" using nf by (simp add: sampleImage_def)
  have c1: "(stack out ! 1) 1 1 = ramp 0 1 1"
    using c [rule_format, of 0 2 1 1] nf3 by (simp add: sampleImage_def coerce_def sampleHost_def)
  have c2: "(stack out ! 2) 1 1 = ramp 0 1 1"
    using c [rule_format, of 0 3 1 1] nf3 by (simp add: sampleImage_def coerce_def sampleHost_def)
  have c3: "(stack out ! 1) 4 0 = ramp 200 2 0"
    using c [rule_format, of 1 2 2 0] nf3 by (simp add: sampleImage_def coerce_def sampleHost_def)
  show ?thesis using res nf3 c1 c2 c3 by blast
qed

lemma upt_1_2: "[Suc 0..<2] = [Suc 0]"
  by (simp add: upt_rec)

text \<open>
  Claim C1 as stated fails for an input with more than one plane per time frame. The
  function positions an input with \<open>setSlice(f)\<close>, an index into the stack and not a
  time frame: for a 2-channel input of 2 frames whose planes hold 10, 20, 30 and 40, frame
  2 of the montage holds 20, the second channel of frame 1, while the planes of the input's
  frame 2 hold 30 and 40.
\<close>

theorem montage_content_counterexample:
  "montageSample (stackImagesHorizontally sampleHost [hyperSeries, sampleImage 2 2 8 [flat 1]]) 2 0 0
     = Some 20 \<and>
   nFrames hyperSeries = 2 \<and>
   map (\<lambda>p. p 0 0) (framePlanes hyperSeries 2) = [30, 40]"
proof -
  have a: "montageSample (stackImagesHorizontally sampleHost
      [hyperSeries, sampleImage 2 2 8 [flat 1]]) 2 0 0 = Some 20"
    by (simp add: montageSample_def montageOf_def stackImagesHorizontally_def Let_def
        hyperSeries_def sampleImage_def sampleHost_def newHyperstack_def createImage_def
        upt_1_2 setSlice_def getProcessor_def selectFrame_def insertP_def putProcessor_def
        coerce_def planeOf_def typeDepth_def mathMax_def flat_def copyCal_def)
  have b: "nFrames hyperSeries = 2" "map (\<lambda>p. p 0 0) (framePlanes hyperSeries 2) = [30, 40]"
    by (simp_all add: hyperSeries_def framePlanes_def flat_def)
  show ?thesis using a b by simp
qed

section \<open>The Channel-On-Demand Provider: proofs\<close>

lemma modify_fields [simp]:
  "heap (modify r f s) = (heap s)(r := f (heap s r))"
  "nextRef (modify r f s) = nextRef s" "current (modify r f s) = current s"
  "originalImage (modify r f s) = originalImage s"
  "duplicatedCroppedImage (modify r f s) = duplicatedCroppedImage s"
  "splitInvertedChannels (modify r f s) = splitInvertedChannels s"
  "splitInvertedChannelsFullStack (modify r f s) = splitInvertedChannelsFullStack s"
  "finalAlignedImage (modify r f s) = finalAlignedImage s"
  "mergeCheckboxes (modify r f s) = mergeCheckboxes s"
  "alignmentChoices (modify r f s) = alignmentChoices s"
  "useFramesCheckbox (modify r f s) = useFramesCheckbox s"
  "mergeCount (modify r f s) = mergeCount s" "messages (modify r f s) = messages s"
  by (simp_all add: modify_def)

lemma selectWindow_fields [simp]:
  "heap (ij_selectWindow t s) = heap s"
  "nextRef (ij_selectWindow t s) = nextRef s"
  "originalImage (ij_selectWindow t s) = originalImage s"
  "duplicatedCroppedImage (ij_selectWindow t s) = duplicatedCroppedImage s"
  "splitInvertedChannels (ij_selectWindow t s) = splitInvertedChannels s"
  "splitInvertedChannelsFullStack (ij_selectWindow t s) = splitInvertedChannelsFullStack s"
  "finalAlignedImage (ij_selectWindow t s) = finalAlignedImage s"
  "mergeCheckboxes (ij_selectWindow t s) = mergeCheckboxes s"
  "alignmentChoices (ij_selectWindow t s) = alignmentChoices s"
  "useFramesCheckbox (ij_selectWindow t s) = useFramesCheckbox s"
  "mergeCount (ij_selectWindow t s) = mergeCount s" "messages (ij_selectWindow t s) = messages s"
  by (simp_all add: ij_selectWindow_def split: option.splits)

lemma duplicate_fields [simp]:
  "heap (ij_duplicate h r sel ttl s) = (heap s)(nextRef s := duplicated h sel ttl (heap s r))"
  "nextRef (ij_duplicate h r sel ttl s) = nextRef s + 1"
  "current (ij_duplicate h r sel ttl s) = Some (nextRef s)"
  "originalImage (ij_duplicate h r sel ttl s) = originalImage s"
  "duplicatedCroppedImage (ij_duplicate h r sel ttl s) = duplicatedCroppedImage s"
  "splitInvertedChannels (ij_duplicate h r sel ttl s) = splitInvertedChannels s"
  "splitInvertedChannelsFullStack (ij_duplicate h r sel ttl s) = splitInvertedChannelsFullStack s"
  "finalAlignedImage (ij_duplicate h r sel ttl s) = finalAlignedImage s"
  "mergeCheckboxes (ij_duplicate h r sel ttl s) = mergeCheckboxes s"
  "alignmentChoices (ij_duplicate h r sel ttl s) = alignmentChoices s"
  "useFramesCheckbox (ij_duplicate h r sel ttl s) = useFramesCheckbox s"
  "mergeCount (ij_duplicate h r sel ttl s) = mergeCount s"
  "messages (ij_duplicate h r sel ttl s) = messages s"
  by (simp_all add: ij_duplicate_def alloc_def)

lemma duplicated_fields [simp]:
  "width (duplicated h sel ttl img) = width img" "height (duplicated h sel ttl img) = height img"
  "bitDepth (duplicated h sel ttl img) = bitDepth img"
  "nChannels (duplicated h sel ttl img) = nChannels img"
  "cal (duplicated h sel ttl img) = cal img"
  "visible (duplicated h sel ttl img)" "\<not> closed (duplicated h sel ttl img)"
  "nFrames (duplicated h (Frames n) ttl img) = n"
  "nFrames (duplicated h (SliceFrames z n) ttl img) = n"
  "nFrames (duplicated h (SliceUse k) ttl img) = 1"
  "nFrames (duplicated h Whole ttl img) = 1"
  by (simp_all add: duplicated_def)

lemma converted_fields [simp]:
  "width (converted h d img) = width img" "height (converted h d img) = height img"
  "bitDepth (converted h d img) = d" "nFrames (converted h d img) = nFrames img"
  "nChannels (converted h d img) = nChannels img"
  "cal (converted h d img) = cal img" "visible (converted h d img) = visible img"
  "closed (converted h d img) = closed img" "title (converted h d img) = title img"
  by (simp_all add: converted_def)

lemma provider_null:
  "getChannelImage16OnTheFly h chStr s = (Returned Null, s') \<Longrightarrow> s' = s"
  by (auto simp: getChannelImage16OnTheFly_def Let_def split: if_splits option.splits)

lemma provider_unresolved:
  assumes "channelEntry s chStr = None"
  shows "getChannelImage16OnTheFly h chStr s = (Returned Null, s)"
proof (cases "take 2 chStr = ''Ch''")
  case False
  then show ?thesis by (simp add: getChannelImage16OnTheFly_def)
next
  case tk: True
  show ?thesis
  proof (cases "parseInt (drop 2 chStr)")
    case None
    then show ?thesis using tk by (simp add: getChannelImage16OnTheFly_def)
  next
    case (Some n)
    show ?thesis
    proof (cases "n - 1 < 0 \<or> int (length (splitInvertedChannels s)) \<le> n - 1")
      case True
      then show ?thesis using tk Some by (simp add: getChannelImage16OnTheFly_def Let_def)
    next
      case False
      then have "1 \<le> n" "nat (n - 1) < length (splitInvertedChannels s)" by auto
      then have "splitInvertedChannels s ! nat (n - 1) = None"
        using assms tk Some by (simp add: channelEntry_def channelIndex_def)
      then show ?thesis using tk Some False by (simp add: getChannelImage16OnTheFly_def Let_def)
    qed
  qed
qed

lemma providerDuplicate_fields:
  "heap (providerDuplicate h vis s) =
     (heap s)(nextRef s := duplicated h (providerSelection s vis) None (heap s vis))"
  "nextRef (providerDuplicate h vis s) = nextRef s + 1"
  "current (providerDuplicate h vis s) = Some (nextRef s)"
  "originalImage (providerDuplicate h vis s) = originalImage s"
  "splitInvertedChannels (providerDuplicate h vis s) = splitInvertedChannels s"
  "useFramesCheckbox (providerDuplicate h vis s) = useFramesCheckbox s"
  "mergeCheckboxes (providerDuplicate h vis s) = mergeCheckboxes s"
  "mergeCount (providerDuplicate h vis s) = mergeCount s"
  "messages (providerDuplicate h vis s) = messages s"
  by (simp_all add: providerDuplicate_def providerSelection_def Let_def)

lemma provider_resolved:
  assumes e: "channelEntry s chStr = Some vis" and v: "vis < nextRef s"
    and o: "originalImage s = Some orig" and a: "orig < nextRef s"
  shows "\<exists>s'. getChannelImage16OnTheFly h chStr s = (Returned (Obj (nextRef s)), s') \<and>
     nextRef s' = nextRef s + 1 \<and>
     (\<forall>q. q \<noteq> nextRef s \<longrightarrow> heap s' q = heap s q) \<and>
     stack (heap s' (nextRef s)) = providerPlanes h s vis \<and>
     title (heap s' (nextRef s)) = ''16bit_'' @ title (heap s vis) \<and>
     \<not> visible (heap s' (nextRef s)) \<and> bitDepth (heap s' (nextRef s)) = 16 \<and>
     width (heap s' (nextRef s)) = width (heap s vis) \<and>
     height (heap s' (nextRef s)) = height (heap s vis) \<and>
     nFrames (heap s' (nextRef s)) =
       (if useFramesCheckbox s \<and> nFrames (heap s vis) > 1 then nFrames (heap s vis) else 1) \<and>
     pixelWidth (cal (heap s' (nextRef s))) = pixelWidth (cal (heap s orig)) \<and>
     pixelHeight (cal (heap s' (nextRef s))) = pixelHeight (cal (heap s orig)) \<and>
     unit (cal (heap s' (nextRef s))) = unit (cal (heap s orig)) \<and>
     (nFrames (heap s' (nextRef s)) > 1 \<longrightarrow>
        frameInterval (cal (heap s' (nextRef s))) = frameInterval (cal (heap s orig)) \<and>
        fps (cal (heap s' (nextRef s))) = fps (cal (heap s orig))) \<and>
     originalImage s' = originalImage s \<and>
     splitInvertedChannels s' = splitInvertedChannels s \<and>
     useFramesCheckbox s' = useFramesCheckbox s \<and>
     mergeCheckboxes s' = mergeCheckboxes s \<and>
     messages s' = messages s"
proof -
  from e obtain n where tk: "take 2 chStr = ''Ch''" and p: "parseInt (drop 2 chStr) = Some n"
    and n1: "1 \<le> n" and lt: "nat (n - 1) < length (splitInvertedChannels s)"
    and ent: "splitInvertedChannels s ! nat (n - 1) = Some vis"
    by (auto simp: channelEntry_def channelIndex_def split: if_splits option.splits)
  have rng: "\<not> (n - 1 < 0 \<or> int (length (splitInvertedChannels s)) \<le> n - 1)"
    using n1 lt by auto
  let ?d = "nextRef s"
  define s2 where "s2 = providerDuplicate h vis s"
  define s3 where "s3 = (if bitDepth (heap s2 ?d) \<noteq> 16 then modify ?d (converted h 16) s2 else s2)"
  define s4 where "s4 = setTitle ?d (''16bit_'' @ title (heap s3 vis)) s3"
  define c where "c = cal (heap s4 orig)"
  define s5 where "s5 = copySpatial c ?d s4"
  define s6 where "s6 = (if nFrames (heap s5 ?d) > 1 then copyTemporal c ?d s5 else s5)"
  define s7 where "s7 = imgHide ?d s6"
  note f2 = providerDuplicate_fields [of h vis s, folded s2_def]
  have cur: "current s2 = Some ?d" by (rule f2(3))
  have o4: "originalImage s4 = Some orig"
    using o f2(4) by (simp add: s4_def s3_def setTitle_def)
  have res: "getChannelImage16OnTheFly h chStr s = (Returned (Obj ?d), s7)"
    unfolding getChannelImage16OnTheFly_def Let_def
    apply (simp only: tk p rng ent option.case if_False simp_thms)
    unfolding s2_def [symmetric]
    apply (simp only: cur option.case)
    unfolding s3_def [symmetric]
    unfolding s4_def [symmetric]
    apply (simp only: o4 option.case)
    unfolding c_def [symmetric] s5_def [symmetric]
    unfolding s6_def [symmetric] s7_def [symmetric]
    apply (rule refl)
    done
  have ne: "orig \<noteq> ?d" "vis \<noteq> ?d" using a v by simp_all
  define img2 where "img2 = duplicated h (providerSelection s vis) None (heap s vis)"
  have h2: "heap s2 = (heap s)(?d := img2)" by (simp add: f2(1) img2_def)
  define img3 where "img3 = (if bitDepth (heap s vis) \<noteq> 16 then converted h 16 img2 else img2)"
  have h3: "heap s3 = (heap s)(?d := img3)"
    by (simp add: s3_def h2 img3_def img2_def)
  have i3: "stack img3 = providerPlanes h s vis" "bitDepth img3 = 16"
    "width img3 = width (heap s vis)" "height img3 = height (heap s vis)"
    "nFrames img3 = (if useFramesCheckbox s \<and> nFrames (heap s vis) > 1 then nFrames (heap s vis) else 1)"
    by (simp_all add: img3_def img2_def providerPlanes_def converted_def duplicated_def
        providerSelection_def)
  have h4: "heap s4 = (heap s)(?d := img3\<lparr>title := ''16bit_'' @ title (heap s vis)\<rparr>)"
    using ne by (simp add: s4_def setTitle_def h3)
  have c: "c = cal (heap s orig)" using ne by (simp add: c_def h4)
  have h5: "heap s5 = (heap s)(?d := img3\<lparr>title := ''16bit_'' @ title (heap s vis),
      cal := (cal img3)\<lparr>pixelWidth := pixelWidth c, pixelHeight := pixelHeight c, unit := unit c\<rparr>\<rparr>)"
    by (simp add: s5_def copySpatial_def h4)
  have oth6: "\<forall>q. q \<noteq> ?d \<longrightarrow> heap s6 q = heap s q"
    by (simp add: s6_def copyTemporal_def h5)
  have d6: "stack (heap s6 ?d) = providerPlanes h s vis" "bitDepth (heap s6 ?d) = 16"
    "width (heap s6 ?d) = width (heap s vis)" "height (heap s6 ?d) = height (heap s vis)"
    "nFrames (heap s6 ?d) =
       (if useFramesCheckbox s \<and> nFrames (heap s vis) > 1 then nFrames (heap s vis) else 1)"
    "title (heap s6 ?d) = ''16bit_'' @ title (heap s vis)"
    "pixelWidth (cal (heap s6 ?d)) = pixelWidth c" "pixelHeight (cal (heap s6 ?d)) = pixelHeight c"
    "unit (cal (heap s6 ?d)) = unit c"
    "nFrames (heap s6 ?d) > 1 \<longrightarrow> frameInterval (cal (heap s6 ?d)) = frameInterval c \<and>
        fps (cal (heap s6 ?d)) = fps c"
    using i3 by (simp_all add: s6_def copyTemporal_def h5)
  have g6: "nextRef s6 = ?d + 1" "originalImage s6 = originalImage s"
    "splitInvertedChannels s6 = splitInvertedChannels s"
    "useFramesCheckbox s6 = useFramesCheckbox s" "mergeCheckboxes s6 = mergeCheckboxes s"
    "messages s6 = messages s"
    using f2 by (simp_all add: s6_def copyTemporal_def s5_def copySpatial_def s4_def setTitle_def
        s3_def)
  have h7: "heap s7 = (heap s6)(?d := (heap s6 ?d)\<lparr>visible := False\<rparr>)"
    by (simp add: s7_def imgHide_def modify_def)
  have g7: "nextRef s7 = nextRef s6" "originalImage s7 = originalImage s6"
    "splitInvertedChannels s7 = splitInvertedChannels s6"
    "useFramesCheckbox s7 = useFramesCheckbox s6" "mergeCheckboxes s7 = mergeCheckboxes s6"
    "messages s7 = messages s6"
    by (simp_all add: s7_def imgHide_def)
  have v7: "\<not> visible (heap s7 ?d)" by (simp add: h7)
  have k7: "stack (heap s7 ?d) = stack (heap s6 ?d)" "title (heap s7 ?d) = title (heap s6 ?d)"
    "bitDepth (heap s7 ?d) = bitDepth (heap s6 ?d)" "width (heap s7 ?d) = width (heap s6 ?d)"
    "height (heap s7 ?d) = height (heap s6 ?d)" "nFrames (heap s7 ?d) = nFrames (heap s6 ?d)"
    "cal (heap s7 ?d) = cal (heap s6 ?d)"
    by (simp_all add: h7)
  have oth7: "\<forall>q. q \<noteq> ?d \<longrightarrow> heap s7 q = heap s q"
    using oth6 by (simp add: h7)
  note r6 = d6 [folded k7] g6 [folded g7]
  note r7 = r6 [unfolded c]
  show ?thesis
    apply (intro exI conjI)
    apply (rule res)
    apply (rule r7 oth7 v7)+
    done
qed

lemma channelState_fields:
  "originalImage (channelState u) = Some 0" "nextRef (channelState u) = 3"
  "heap (channelState u) 0 = sampleSource 2 3"
  "heap (channelState u) (Suc 0) = sampleChannel 10"
  "heap (channelState u) 2 = sampleChannel 20"
  "useFramesCheckbox (channelState u) = u"
  "splitInvertedChannels (channelState u) = [Some 1, Some 2, None, None]"
  "messages (channelState u) = []"
  by (simp_all add: channelState_def extractedState_def initialState_def)

lemma sample_entries:
  "channelEntry s ''Ch1'' = (if 0 < length (splitInvertedChannels s) then splitInvertedChannels s ! 0 else None)"
  "channelEntry s ''Ch2'' = (if 1 < length (splitInvertedChannels s) then splitInvertedChannels s ! 1 else None)"
  "channelEntry s ''Ch3'' = (if 2 < length (splitInvertedChannels s) then splitInvertedChannels s ! 2 else None)"
  by (simp_all add: channelEntry_def channelIndex_def parseInt_def isSpace_def isDigit_def
        digitsValue_def Let_def)

text \<open>
  Claim C6, as the code has it. An identifier that does not resolve to a populated Channel
  Set entry makes the Provider return null. One that resolves makes it return a new image
  object, the entry and every other image being left as they were. The new image holds the
  planes the host's Duplicate gives for the entry (all frames in multi-frame mode when the
  entry has more than one, the current plane otherwise), converted to 16-bit unless the
  entry is 16-bit already; it is titled \<open>16bit_\<close> followed by the entry's title, has the
  entry's width and height, and its pixel size and unit (and, with more than one frame,
  frame interval and frame rate) are those of the original image. It is hidden when it is
  returned; the host's Duplicate had displayed it as the current image, and the Provider
  hides it as its last step.
\<close>

theorem provider_result:
  "(channelEntry s chStr = None \<longrightarrow> getChannelImage16OnTheFly h chStr s = (Returned Null, s)) \<and>
   (\<forall>vis orig. channelEntry s chStr = Some vis \<and> vis < nextRef s \<and>
        originalImage s = Some orig \<and> orig < nextRef s \<longrightarrow>
      (\<exists>s'. getChannelImage16OnTheFly h chStr s = (Returned (Obj (nextRef s)), s') \<and>
         nextRef s' = nextRef s + 1 \<and>
         (\<forall>q. q \<noteq> nextRef s \<longrightarrow> heap s' q = heap s q) \<and>
         stack (heap s' (nextRef s)) = providerPlanes h s vis \<and>
         title (heap s' (nextRef s)) = ''16bit_'' @ title (heap s vis) \<and>
         \<not> visible (heap s' (nextRef s)) \<and> bitDepth (heap s' (nextRef s)) = 16 \<and>
         width (heap s' (nextRef s)) = width (heap s vis) \<and>
         height (heap s' (nextRef s)) = height (heap s vis) \<and>
         nFrames (heap s' (nextRef s)) =
           (if useFramesCheckbox s \<and> nFrames (heap s vis) > 1 then nFrames (heap s vis) else 1) \<and>
         pixelWidth (cal (heap s' (nextRef s))) = pixelWidth (cal (heap s orig)) \<and>
         pixelHeight (cal (heap s' (nextRef s))) = pixelHeight (cal (heap s orig)) \<and>
         unit (cal (heap s' (nextRef s))) = unit (cal (heap s orig)) \<and>
         (nFrames (heap s' (nextRef s)) > 1 \<longrightarrow>
            frameInterval (cal (heap s' (nextRef s))) = frameInterval (cal (heap s orig)) \<and>
            fps (cal (heap s' (nextRef s))) = fps (cal (heap s orig))) \<and>
         current (providerDuplicate h vis s) = Some (nextRef s) \<and>
         visible (heap (providerDuplicate h vis s) (nextRef s))))"
proof (intro conjI impI allI)
  assume "channelEntry s chStr = None"
  then show "getChannelImage16OnTheFly h chStr s = (Returned Null, s)"
    by (rule provider_unresolved)
next
  fix vis orig
  assume a: "channelEntry s chStr = Some vis \<and> vis < nextRef s \<and>
        originalImage s = Some orig \<and> orig < nextRef s"
  then have e: "channelEntry s chStr = Some vis" and v: "vis < nextRef s"
    and o: "originalImage s = Some orig" and l: "orig < nextRef s" by simp_all
  from provider_resolved [OF e v o l, of h] obtain s' where
    r: "getChannelImage16OnTheFly h chStr s = (Returned (Obj (nextRef s)), s')"
    and f: "nextRef s' = nextRef s + 1" "\<forall>q. q \<noteq> nextRef s \<longrightarrow> heap s' q = heap s q"
     "stack (heap s' (nextRef s)) = providerPlanes h s vis"
     "title (heap s' (nextRef s)) = ''16bit_'' @ title (heap s vis)"
     "\<not> visible (heap s' (nextRef s))" "bitDepth (heap s' (nextRef s)) = 16"
     "width (heap s' (nextRef s)) = width (heap s vis)"
     "height (heap s' (nextRef s)) = height (heap s vis)"
     "nFrames (heap s' (nextRef s)) =
       (if useFramesCheckbox s \<and> nFrames (heap s vis) > 1 then nFrames (heap s vis) else 1)"
     "pixelWidth (cal (heap s' (nextRef s))) = pixelWidth (cal (heap s orig))"
     "pixelHeight (cal (heap s' (nextRef s))) = pixelHeight (cal (heap s orig))"
     "unit (cal (heap s' (nextRef s))) = unit (cal (heap s orig))"
     "nFrames (heap s' (nextRef s)) > 1 \<longrightarrow>
        frameInterval (cal (heap s' (nextRef s))) = frameInterval (cal (heap s orig)) \<and>
        fps (cal (heap s' (nextRef s))) = fps (cal (heap s orig))"
    by (elim exE conjE)
  have c: "current (providerDuplicate h vis s) = Some (nextRef s)"
    by (rule providerDuplicate_fields)
  have w: "visible (heap (providerDuplicate h vis s) (nextRef s))"
    by (simp add: providerDuplicate_fields)
  show "\<exists>s'. getChannelImage16OnTheFly h chStr s = (Returned (Obj (nextRef s)), s') \<and>
         nextRef s' = nextRef s + 1 \<and>
         (\<forall>q. q \<noteq> nextRef s \<longrightarrow> heap s' q = heap s q) \<and>
         stack (heap s' (nextRef s)) = providerPlanes h s vis \<and>
         title (heap s' (nextRef s)) = ''16bit_'' @ title (heap s vis) \<and>
         \<not> visible (heap s' (nextRef s)) \<and> bitDepth (heap s' (nextRef s)) = 16 \<and>
         width (heap s' (nextRef s)) = width (heap s vis) \<and>
         height (heap s' (nextRef s)) = height (heap s vis) \<and>
         nFrames (heap s' (nextRef s)) =
           (if useFramesCheckbox s \<and> nFrames (heap s vis) > 1 then nFrames (heap s vis) else 1) \<and>
         pixelWidth (cal (heap s' (nextRef s))) = pixelWidth (cal (heap s orig)) \<and>
         pixelHeight (cal (heap s' (nextRef s))) = pixelHeight (cal (heap s orig)) \<and>
         unit (cal (heap s' (nextRef s))) = unit (cal (heap s orig)) \<and>
         (nFrames (heap s' (nextRef s)) > 1 \<longrightarrow>
            frameInterval (cal (heap s' (nextRef s))) = frameInterval (cal (heap s orig)) \<and>
            fps (cal (heap s' (nextRef s))) = fps (cal (heap s orig))) \<and>
         current (providerDuplicate h vis s) = Some (nextRef s) \<and>
         visible (heap (providerDuplicate h vis s) (nextRef s))"
    apply (intro exI conjI)
    apply (rule r)
    apply (rule f c w)+
    done
qed

text \<open>
  Two extracted 8-bit channels of three frames with a calibration of their own, under a
  host whose conversion adds 1000 times the target depth. \<open>Ch3\<close> gives null. In
  multi-frame mode \<open>Ch1\<close> gives a new hidden image of the three converted frames with
  the source's pixel size, unit, frame interval and frame rate, the entry being untouched;
  outside it the copy holds the converted current plane and keeps the frame interval it had.
\<close>

theorem provider_result_witness:
  "getChannelImage16OnTheFly tracingHost ''Ch3'' (channelState True) =
     (Returned Null, channelState True) \<and>
   (\<exists>s'. getChannelImage16OnTheFly tracingHost ''Ch1'' (channelState True) = (Returned (Obj 3), s') \<and>
      heap s' 1 = sampleChannel 10 \<and> heap s' 0 = sampleSource 2 3 \<and>
      length (stack (heap s' 3)) = 3 \<and>
      (stack (heap s' 3) ! 0) 0 0 = 16010 \<and> (stack (heap s' 3) ! 2) 0 0 = 16012 \<and>
      title (heap s' 3) = ''16bit_C-TempForMerge_cells.tif'' \<and>
      \<not> visible (heap s' 3) \<and> bitDepth (heap s' 3) = 16 \<and> nFrames (heap s' 3) = 3 \<and>
      pixelWidth (cal (heap s' 3)) = 7 \<and> pixelHeight (cal (heap s' 3)) = 9 \<and>
      unit (cal (heap s' 3)) = ''um'' \<and>
      frameInterval (cal (heap s' 3)) = 5 \<and> fps (cal (heap s' 3)) = 2) \<and>
   (\<exists>s'. getChannelImage16OnTheFly tracingHost ''Ch2'' (channelState False) = (Returned (Obj 3), s') \<and>
      heap s' 2 = sampleChannel 20 \<and>
      length (stack (heap s' 3)) = 1 \<and> (stack (heap s' 3) ! 0) 0 0 = 16020 \<and>
      \<not> visible (heap s' 3) \<and> bitDepth (heap s' 3) = 16 \<and> nFrames (heap s' 3) = 1 \<and>
      pixelWidth (cal (heap s' 3)) = 7 \<and> unit (cal (heap s' 3)) = ''um'')"
proof -
  note cf = channelState_fields
  have n: "channelEntry (channelState True) ''Ch3'' = None"
    by (simp add: sample_entries cf)
  have e1: "channelEntry (channelState True) ''Ch1'' = Some 1"
    by (simp add: sample_entries cf)
  have e2: "channelEntry (channelState False) ''Ch2'' = Some 2"
    by (simp add: sample_entries cf)
  have pl1: "providerPlanes tracingHost (channelState True) (Suc 0) =
      [\<lambda>x y. 16010, \<lambda>x y. 16011, \<lambda>x y. 16012]"
    by (simp add: providerPlanes_def providerSelection_def tracingHost_def sampleHost_def cf
        sampleChannel_def flat_def)
  have pl2: "providerPlanes tracingHost (channelState False) 2 = [\<lambda>x y. 16020]"
    by (simp add: providerPlanes_def providerSelection_def tracingHost_def sampleHost_def cf
        sampleChannel_def flat_def)
  from provider_result [of "channelState True" "''Ch3''" tracingHost] n
  have r1: "getChannelImage16OnTheFly tracingHost ''Ch3'' (channelState True) =
      (Returned Null, channelState True)"
    by simp
  from provider_result [of "channelState True" "''Ch1''" tracingHost] e1
  obtain s' where r2:
    "getChannelImage16OnTheFly tracingHost ''Ch1'' (channelState True) = (Returned (Obj 3), s')"
    "\<forall>q. q \<noteq> 3 \<longrightarrow> heap s' q = heap (channelState True) q"
    "stack (heap s' 3) = providerPlanes tracingHost (channelState True) 1"
    "title (heap s' 3) = ''16bit_'' @ title (heap (channelState True) 1)"
    "\<not> visible (heap s' 3)" "bitDepth (heap s' 3) = 16"
    "nFrames (heap s' 3) = 3"
    "pixelWidth (cal (heap s' 3)) = pixelWidth (cal (heap (channelState True) 0))"
    "pixelHeight (cal (heap s' 3)) = pixelHeight (cal (heap (channelState True) 0))"
    "unit (cal (heap s' 3)) = unit (cal (heap (channelState True) 0))"
    "frameInterval (cal (heap s' 3)) = frameInterval (cal (heap (channelState True) 0))"
    "fps (cal (heap s' 3)) = fps (cal (heap (channelState True) 0))"
    by (auto simp: cf sampleChannel_def)
  from provider_result [of "channelState False" "''Ch2''" tracingHost] e2
  obtain t' where r3:
    "getChannelImage16OnTheFly tracingHost ''Ch2'' (channelState False) = (Returned (Obj 3), t')"
    "\<forall>q. q \<noteq> 3 \<longrightarrow> heap t' q = heap (channelState False) q"
    "stack (heap t' 3) = providerPlanes tracingHost (channelState False) 2"
    "\<not> visible (heap t' 3)" "bitDepth (heap t' 3) = 16"
    "nFrames (heap t' 3) = 1"
    "pixelWidth (cal (heap t' 3)) = pixelWidth (cal (heap (channelState False) 0))"
    "unit (cal (heap t' 3)) = unit (cal (heap (channelState False) 0))"
    by (auto simp: cf sampleChannel_def)
  have a2: "getChannelImage16OnTheFly tracingHost ''Ch1'' (channelState True) = (Returned (Obj 3), s') \<and>
      heap s' 1 = sampleChannel 10 \<and> heap s' 0 = sampleSource 2 3 \<and>
      length (stack (heap s' 3)) = 3 \<and>
      (stack (heap s' 3) ! 0) 0 0 = 16010 \<and> (stack (heap s' 3) ! 2) 0 0 = 16012 \<and>
      title (heap s' 3) = ''16bit_C-TempForMerge_cells.tif'' \<and>
      \<not> visible (heap s' 3) \<and> bitDepth (heap s' 3) = 16 \<and> nFrames (heap s' 3) = 3 \<and>
      pixelWidth (cal (heap s' 3)) = 7 \<and> pixelHeight (cal (heap s' 3)) = 9 \<and>
      unit (cal (heap s' 3)) = ''um'' \<and>
      frameInterval (cal (heap s' 3)) = 5 \<and> fps (cal (heap s' 3)) = 2"
    using r2 by (simp add: pl1 cf sampleSource_def sampleChannel_def)
  have a3: "getChannelImage16OnTheFly tracingHost ''Ch2'' (channelState False) = (Returned (Obj 3), t') \<and>
      heap t' 2 = sampleChannel 20 \<and>
      length (stack (heap t' 3)) = 1 \<and> (stack (heap t' 3) ! 0) 0 0 = 16020 \<and>
      \<not> visible (heap t' 3) \<and> bitDepth (heap t' 3) = 16 \<and> nFrames (heap t' 3) = 1 \<and>
      pixelWidth (cal (heap t' 3)) = 7 \<and> unit (cal (heap t' 3)) = ''um''"
    using r3 by (simp add: pl2 cf sampleSource_def sampleChannel_def)
  show ?thesis
    apply (intro conjI)
    apply (rule r1)
    apply (rule exI)
    apply (rule a2)
    apply (rule exI)
    apply (rule a3)
    done
qed

text \<open>
  Claim C6 as stated fails in "never shown": the host's Duplicate displays the copy, the
  Provider fetches it as the current image, converts and relabels it, and hides it only at
  the end. Between these steps the copy of entry 1 is on screen.
\<close>

theorem provider_shown_counterexample:
  "channelEntry (channelState True) ''Ch1'' = Some 1 \<and>
   fst (getChannelImage16OnTheFly tracingHost ''Ch1'' (channelState True)) = Returned (Obj 3) \<and>
   current (providerDuplicate tracingHost 1 (channelState True)) = Some 3 \<and>
   visible (heap (providerDuplicate tracingHost 1 (channelState True)) 3)"
proof -
  have e: "channelEntry (channelState True) ''Ch1'' = Some 1"
    by (simp add: sample_entries channelState_fields)
  from provider_resolved [OF e, of 0 tracingHost]
  have r: "fst (getChannelImage16OnTheFly tracingHost ''Ch1'' (channelState True)) = Returned (Obj 3)"
    by (auto simp: channelState_fields)
  have d: "current (providerDuplicate tracingHost 1 (channelState True)) = Some 3"
    "visible (heap (providerDuplicate tracingHost 1 (channelState True)) 3)"
    by (simp_all add: providerDuplicate_fields channelState_fields)
  show ?thesis using e r d by simp
qed

text \<open>
  Claim C10. Whenever the Provider returns null, the state it leaves is the state it was
  called in: nothing was duplicated, selected or changed.
\<close>

theorem provider_null_no_effect:
  "getChannelImage16OnTheFly h chStr s = (Returned Null, s') \<Longrightarrow> s' = s"
  by (rule provider_null)

text \<open>\<open>Ch9\<close> is outside the Channel Set: null, and the state is untouched.\<close>

theorem provider_null_no_effect_witness:
  "getChannelImage16OnTheFly sampleHost ''Ch9'' extractedState = (Returned Null, extractedState)"
proof -
  have e: "fst (getChannelImage16OnTheFly sampleHost ''Ch9'' extractedState) = Returned Null"
    by (simp add: getChannelImage16OnTheFly_def parseInt_def isSpace_def isDigit_def
        digitsValue_def Let_def extractedState_def initialState_def)
  then have "getChannelImage16OnTheFly sampleHost ''Ch9'' extractedState =
      (Returned Null, snd (getChannelImage16OnTheFly sampleHost ''Ch9'' extractedState))"
    by (simp add: prod_eq_iff)
  from provider_null_no_effect [OF this] this show ?thesis by simp
qed

section \<open>The Channel Extractor: proofs\<close>

lemma invertSample_involutive: "v \<le> 255 \<Longrightarrow> invertSample 8 (invertSample 8 v) = v"
  by (simp add: invertSample_def)

lemma invertPlane_involutive:
  "\<forall>x y. p x y \<le> 255 \<Longrightarrow> invertPlane 8 (invertPlane 8 p) = p"
  by (simp add: invertPlane_def invertSample_involutive)

lemma inverted_whole_twice:
  assumes "eightBit img"
  shows "stack (inverted True (inverted True img)) = stack img"
proof -
  from assms have d: "bitDepth img = 8" and r: "\<forall>p\<in>set (stack img). \<forall>x y. p x y \<le> 255"
    by (simp_all add: eightBit_def)
  have "map (invertPlane 8 \<circ> invertPlane 8) (stack img) = map (\<lambda>p. p) (stack img)"
    using r by (intro map_cong) (simp_all add: invertPlane_involutive)
  then show ?thesis using d by (simp add: inverted_def)
qed

lemma inverted_current_twice:
  assumes "eightBit img"
  shows "stack (inverted False (inverted False img)) = stack img"
proof (rule nth_equalityI)
  show "length (stack (inverted False (inverted False img))) = length (stack img)"
    by (simp add: inverted_def)
next
  fix k assume "k < length (stack (inverted False (inverted False img)))"
  then have k: "k < length (stack img)" by (simp add: inverted_def)
  from assms have d: "bitDepth img = 8" and r: "\<forall>p\<in>set (stack img). \<forall>x y. p x y \<le> 255"
    by (simp_all add: eightBit_def)
  have "\<forall>x y. (stack img ! k) x y \<le> 255" using r k by simp
  then have "invertPlane 8 (invertPlane 8 (stack img ! k)) = stack img ! k"
    by (rule invertPlane_involutive)
  then show "stack (inverted False (inverted False img)) ! k = stack img ! k"
    using k d by (simp add: inverted_def)
qed

text \<open>
  Claim C8. The inversion the Extractor applies (value to max - value within the bit depth)
  is an involution on 8-bit samples: inverting a sample twice gives it back, and so does
  inverting an 8-bit image twice, as a whole stack or at its current plane.
\<close>

theorem invert_involutive:
  "(v \<le> 255 \<longrightarrow> invertSample 8 (invertSample 8 v) = v) \<and>
   (eightBit img \<longrightarrow> stack (inverted True (inverted True img)) = stack img \<and>
      stack (inverted False (inverted False img)) = stack img)"
  by (simp add: invertSample_involutive inverted_whole_twice inverted_current_twice)

text \<open>The sample 200, and a two-plane 8-bit image.\<close>

theorem invert_involutive_witness:
  "invertSample 8 (invertSample 8 200) = 200 \<and>
   stack (inverted True (inverted True (sampleImage 2 2 8 [flat 7, flat 250])))
     = stack (sampleImage 2 2 8 [flat 7, flat 250]) \<and>
   stack (inverted False (inverted False (sampleImage 2 2 8 [flat 7, flat 250])))
     = stack (sampleImage 2 2 8 [flat 7, flat 250])"
  using invert_involutive [of 200 "sampleImage 2 2 8 [flat 7, flat 250]"]
  by (simp add: eightBit_def sampleImage_def flat_def)

lemma jsSet_in: "i < length xs \<Longrightarrow> jsSet xs i v = xs[i := v]"
  by (simp add: jsSet_def)

lemma setTitle_arrays [simp]:
  "splitInvertedChannels (setTitle r t s) = splitInvertedChannels s"
  "splitInvertedChannelsFullStack (setTitle r t s) = splitInvertedChannelsFullStack s"
  by (simp_all add: setTitle_def)

lemma imgShow_arrays [simp]:
  "splitInvertedChannels (imgShow r s) = splitInvertedChannels s"
  "splitInvertedChannelsFullStack (imgShow r s) = splitInvertedChannelsFullStack s"
  by (simp_all add: imgShow_def)

lemma extractLoop_arrays:
  "length (splitInvertedChannels s) = 4 \<Longrightarrow> length (splitInvertedChannelsFullStack s) = 4 \<Longrightarrow>
   length (splitInvertedChannels (extractLoop h multi base splitArr i s)) = 4 \<and>
   length (splitInvertedChannelsFullStack (extractLoop h multi base splitArr i s)) = 4 \<and>
   (\<forall>j<4. splitInvertedChannels (extractLoop h multi base splitArr i s) ! j =
        (if i \<le> j \<and> j < length splitArr then Some (splitArr ! j)
         else splitInvertedChannels s ! j)) \<and>
   (\<forall>j<4. splitInvertedChannelsFullStack (extractLoop h multi base splitArr i s) ! j =
        (if i \<le> j \<and> j < length splitArr then (if multi then Some (splitArr ! j) else None)
         else splitInvertedChannelsFullStack s ! j))"
proof (induction "4 - i" arbitrary: i s)
  case 0
  then have "\<not> (i < length splitArr \<and> i < 4)" by simp
  then have "extractLoop h multi base splitArr i s = s"
    by (subst extractLoop.simps) auto
  then show ?case using 0 by auto
next
  case (Suc n)
  show ?case
  proof (cases "i < length splitArr \<and> i < 4")
    case False
    then have e: "extractLoop h multi base splitArr i s = s"
      by (subst extractLoop.simps) auto
    show ?thesis unfolding e using Suc.prems False by auto
  next
    case True
    define r where "r = splitArr ! i"
    define s4 where "s4 = imgShow r (setTitle r (''C'' @ showNat (i + 1) @ ''-TempForMerge_'' @ base)
        (modify r (inverted multi) (modify r (converted h 8) s)))"
    define s6 where "s6 = s4\<lparr>splitInvertedChannels := jsSet (splitInvertedChannels s4) i (Some r),
        splitInvertedChannelsFullStack :=
          jsSet (splitInvertedChannelsFullStack s4) i (if multi then Some r else None)\<rparr>"
    have e: "extractLoop h multi base splitArr i s = extractLoop h multi base splitArr (i + 1) s6"
      using True by (subst extractLoop.simps) (simp add: Let_def s6_def s4_def r_def)
    have a4: "splitInvertedChannels s4 = splitInvertedChannels s"
      "splitInvertedChannelsFullStack s4 = splitInvertedChannelsFullStack s"
      by (simp_all add: s4_def)
    have a6: "splitInvertedChannels s6 = (splitInvertedChannels s)[i := Some r]"
      "splitInvertedChannelsFullStack s6 =
         (splitInvertedChannelsFullStack s)[i := (if multi then Some r else None)]"
      using True Suc.prems by (simp_all add: s6_def a4 jsSet_in)
    have l6: "length (splitInvertedChannels s6) = 4" "length (splitInvertedChannelsFullStack s6) = 4"
      using Suc.prems by (simp_all add: a6)
    have n: "n = 4 - (i + 1)" using Suc.hyps(2) by simp
    note ih = Suc.hyps(1) [OF n l6]
    show ?thesis unfolding e
    proof (intro conjI allI impI)
      show "length (splitInvertedChannels (extractLoop h multi base splitArr (i + 1) s6)) = 4"
        using ih by simp
      show "length (splitInvertedChannelsFullStack (extractLoop h multi base splitArr (i + 1) s6)) = 4"
        using ih by simp
    next
      fix j :: nat assume j: "j < 4"
      have "splitInvertedChannels (extractLoop h multi base splitArr (i + 1) s6) ! j =
        (if i + 1 \<le> j \<and> j < length splitArr then Some (splitArr ! j)
         else splitInvertedChannels s6 ! j)"
        using ih j by simp
      then show "splitInvertedChannels (extractLoop h multi base splitArr (i + 1) s6) ! j =
        (if i \<le> j \<and> j < length splitArr then Some (splitArr ! j)
         else splitInvertedChannels s ! j)"
        using True Suc.prems j by (cases "j = i") (auto simp: a6 r_def)
    next
      fix j :: nat assume j: "j < 4"
      have "splitInvertedChannelsFullStack (extractLoop h multi base splitArr (i + 1) s6) ! j =
        (if i + 1 \<le> j \<and> j < length splitArr then (if multi then Some (splitArr ! j) else None)
         else splitInvertedChannelsFullStack s6 ! j)"
        using ih j by simp
      then show "splitInvertedChannelsFullStack (extractLoop h multi base splitArr (i + 1) s6) ! j =
        (if i \<le> j \<and> j < length splitArr then (if multi then Some (splitArr ! j) else None)
         else splitInvertedChannelsFullStack s ! j)"
        using True Suc.prems j by (cases "j = i") (auto simp: a6 r_def)
    qed
  qed
qed

lemma nullLoop_arrays:
  "length (splitInvertedChannels s) = 4 \<Longrightarrow> length (splitInvertedChannelsFullStack s) = 4 \<Longrightarrow>
   length (splitInvertedChannels (nullLoop k s)) = 4 \<and>
   length (splitInvertedChannelsFullStack (nullLoop k s)) = 4 \<and>
   (\<forall>j<4. splitInvertedChannels (nullLoop k s) ! j =
        (if k \<le> j then None else splitInvertedChannels s ! j)) \<and>
   (\<forall>j<4. splitInvertedChannelsFullStack (nullLoop k s) ! j =
        (if k \<le> j then None else splitInvertedChannelsFullStack s ! j))"
proof (induction "4 - k" arbitrary: k s)
  case 0
  then have "\<not> k < 4" by simp
  then have e: "nullLoop k s = s" by (subst nullLoop.simps) simp
  show ?case unfolding e using 0 by auto
next
  case (Suc n)
  then have k: "k < 4" by simp
  define s1 where "s1 = s\<lparr>splitInvertedChannels := jsSet (splitInvertedChannels s) k None,
      splitInvertedChannelsFullStack := jsSet (splitInvertedChannelsFullStack s) k None\<rparr>"
  have e: "nullLoop k s = nullLoop (k + 1) s1"
    using k by (subst nullLoop.simps) (simp add: s1_def)
  have a1: "splitInvertedChannels s1 = (splitInvertedChannels s)[k := None]"
    "splitInvertedChannelsFullStack s1 = (splitInvertedChannelsFullStack s)[k := None]"
    using k Suc.prems by (simp_all add: s1_def jsSet_in)
  have l1: "length (splitInvertedChannels s1) = 4" "length (splitInvertedChannelsFullStack s1) = 4"
    using Suc.prems by (simp_all add: a1)
  have n: "n = 4 - (k + 1)" using Suc.hyps(2) by simp
  note ih = Suc.hyps(1) [OF n l1]
  show ?case unfolding e
  proof (intro conjI allI impI)
    show "length (splitInvertedChannels (nullLoop (k + 1) s1)) = 4" using ih by simp
    show "length (splitInvertedChannelsFullStack (nullLoop (k + 1) s1)) = 4" using ih by simp
  next
    fix j :: nat assume j: "j < 4"
    have "splitInvertedChannels (nullLoop (k + 1) s1) ! j =
        (if k + 1 \<le> j then None else splitInvertedChannels s1 ! j)"
      using ih j by simp
    then show "splitInvertedChannels (nullLoop (k + 1) s1) ! j =
        (if k \<le> j then None else splitInvertedChannels s ! j)"
      using Suc.prems j by (cases "j = k") (auto simp: a1)
  next
    fix j :: nat assume j: "j < 4"
    have "splitInvertedChannelsFullStack (nullLoop (k + 1) s1) ! j =
        (if k + 1 \<le> j then None else splitInvertedChannelsFullStack s1 ! j)"
      using ih j by simp
    then show "splitInvertedChannelsFullStack (nullLoop (k + 1) s1) ! j =
        (if k \<le> j then None else splitInvertedChannelsFullStack s ! j)"
      using Suc.prems j by (cases "j = k") (auto simp: a1)
  qed
qed

lemma alloc_fields [simp]:
  "fst (alloc img s) = nextRef s"
  "heap (snd (alloc img s)) = (heap s)(nextRef s := img)"
  "nextRef (snd (alloc img s)) = nextRef s + 1"
  "current (snd (alloc img s)) = current s"
  "originalImage (snd (alloc img s)) = originalImage s"
  "duplicatedCroppedImage (snd (alloc img s)) = duplicatedCroppedImage s"
  "splitInvertedChannels (snd (alloc img s)) = splitInvertedChannels s"
  "splitInvertedChannelsFullStack (snd (alloc img s)) = splitInvertedChannelsFullStack s"
  "finalAlignedImage (snd (alloc img s)) = finalAlignedImage s"
  "mergeCheckboxes (snd (alloc img s)) = mergeCheckboxes s"
  "alignmentChoices (snd (alloc img s)) = alignmentChoices s"
  "useFramesCheckbox (snd (alloc img s)) = useFramesCheckbox s"
  "mergeCount (snd (alloc img s)) = mergeCount s"
  "messages (snd (alloc img s)) = messages s"
  by (simp_all add: alloc_def)

lemma allocAll_Cons:
  "allocAll (img # rest) s =
     (nextRef s # fst (allocAll rest (snd (alloc img s))), snd (allocAll rest (snd (alloc img s))))"
  by (simp add: alloc_def split_beta Let_def)

lemma allocAll_fst: "fst (allocAll imgs s) = [nextRef s..<nextRef s + length imgs]"
proof (induction imgs arbitrary: s)
  case Nil
  then show ?case by simp
next
  case (Cons img rest)
  show ?case unfolding allocAll_Cons fst_conv Cons.IH by (simp add: upt_rec)
qed

lemma allocAll_nextRef: "nextRef (snd (allocAll imgs s)) = nextRef s + length imgs"
proof (induction imgs arbitrary: s)
  case Nil
  then show ?case by simp
next
  case (Cons img rest)
  show ?case unfolding allocAll_Cons snd_conv Cons.IH by simp
qed

lemma allocAll_heap:
  "heap (snd (allocAll imgs s)) r =
      (if nextRef s \<le> r \<and> r < nextRef s + length imgs then imgs ! (r - nextRef s) else heap s r)"
proof (induction imgs arbitrary: s)
  case Nil
  then show ?case by auto
next
  case (Cons img rest)
  show ?case
  proof (cases "r = nextRef s")
    case True
    then show ?thesis unfolding allocAll_Cons snd_conv Cons.IH by simp
  next
    case False
    show ?thesis
    proof (cases "nextRef s < r \<and> r < nextRef s + 1 + length rest")
      case True
      then have "r - nextRef s = Suc (r - (nextRef s + 1))" by arith
      then show ?thesis unfolding allocAll_Cons snd_conv Cons.IH using True by simp
    next
      case out: False
      then show ?thesis unfolding allocAll_Cons snd_conv Cons.IH using False by auto
    qed
  qed
qed

lemma allocAll_rest:
  "current (snd (allocAll imgs s)) = current s \<and>
   originalImage (snd (allocAll imgs s)) = originalImage s \<and>
   duplicatedCroppedImage (snd (allocAll imgs s)) = duplicatedCroppedImage s \<and>
   splitInvertedChannels (snd (allocAll imgs s)) = splitInvertedChannels s \<and>
   splitInvertedChannelsFullStack (snd (allocAll imgs s)) = splitInvertedChannelsFullStack s \<and>
   finalAlignedImage (snd (allocAll imgs s)) = finalAlignedImage s \<and>
   mergeCheckboxes (snd (allocAll imgs s)) = mergeCheckboxes s \<and>
   alignmentChoices (snd (allocAll imgs s)) = alignmentChoices s \<and>
   useFramesCheckbox (snd (allocAll imgs s)) = useFramesCheckbox s \<and>
   mergeCount (snd (allocAll imgs s)) = mergeCount s \<and>
   messages (snd (allocAll imgs s)) = messages s"
proof (induction imgs arbitrary: s)
  case Nil
  then show ?case by simp
next
  case (Cons img rest)
  show ?case unfolding allocAll_Cons snd_conv using Cons.IH [of "snd (alloc img s)"] by simp
qed

lemmas allocAll_fields [simp] =
  allocAll_rest [THEN conjunct1]
  allocAll_rest [THEN conjunct2, THEN conjunct1]
  allocAll_rest [THEN conjunct2, THEN conjunct2, THEN conjunct1]
  allocAll_rest [THEN conjunct2, THEN conjunct2, THEN conjunct2, THEN conjunct1]
  allocAll_rest [THEN conjunct2, THEN conjunct2, THEN conjunct2, THEN conjunct2, THEN conjunct1]
  allocAll_rest [THEN conjunct2, THEN conjunct2, THEN conjunct2, THEN conjunct2, THEN conjunct2,
    THEN conjunct1]
  allocAll_rest [THEN conjunct2, THEN conjunct2, THEN conjunct2, THEN conjunct2, THEN conjunct2,
    THEN conjunct2, THEN conjunct1]
  allocAll_rest [THEN conjunct2, THEN conjunct2, THEN conjunct2, THEN conjunct2, THEN conjunct2,
    THEN conjunct2, THEN conjunct2, THEN conjunct1]
  allocAll_rest [THEN conjunct2, THEN conjunct2, THEN conjunct2, THEN conjunct2, THEN conjunct2,
    THEN conjunct2, THEN conjunct2, THEN conjunct2, THEN conjunct1]
  allocAll_rest [THEN conjunct2, THEN conjunct2, THEN conjunct2, THEN conjunct2, THEN conjunct2,
    THEN conjunct2, THEN conjunct2, THEN conjunct2, THEN conjunct2, THEN conjunct1]
  allocAll_rest [THEN conjunct2, THEN conjunct2, THEN conjunct2, THEN conjunct2, THEN conjunct2,
    THEN conjunct2, THEN conjunct2, THEN conjunct2, THEN conjunct2, THEN conjunct2]

lemma ij_split_props:
  "length (fst (ij_split h r s)) = nChannels (heap s r)"
  "splitInvertedChannels (snd (ij_split h r s)) = splitInvertedChannels s"
  "splitInvertedChannelsFullStack (snd (ij_split h r s)) = splitInvertedChannelsFullStack s"
  by (simp_all add: ij_split_def allocAll_fst)

text \<open>
  Claim C7. For a source with any number of channels, in either mode, the Extractor
  finishes with a Channel Set of 4 entries of which entry \<open>k\<close> is populated exactly when
  \<open>k\<close> is below the source's channel count: at most 4 are populated, and every entry at or
  beyond the channel count is null (in both arrays).
\<close>

theorem extractor_entries:
  assumes cur: "current s = Some orig"
    and l1: "length (splitInvertedChannels s) = 4"
    and l2: "length (splitInvertedChannelsFullStack s) = 4"
  shows "\<exists>s'. duplicateSplitInvert h s = (Returned Undefined, s') \<and>
     length (splitInvertedChannels s') = 4 \<and>
     length (filter (\<lambda>e. e \<noteq> None) (splitInvertedChannels s')) \<le> 4 \<and>
     (\<forall>k<4. (splitInvertedChannels s' ! k \<noteq> None) = (k < nChannels (heap s orig))) \<and>
     (\<forall>k<4. nChannels (heap s orig) \<le> k \<longrightarrow>
        splitInvertedChannels s' ! k = None \<and> splitInvertedChannelsFullStack s' ! k = None)"
proof -
  let ?d = "nextRef s"
  define s0 where "s0 = s\<lparr>originalImage := current s\<rparr>"
  define oimg where "oimg = heap s0 orig"
  define s1 where "s1 =
    (if useFramesCheckbox s0 \<and> nFrames oimg > 1 then
       (if nSlices oimg > 1
        then ij_duplicate h orig (SliceFrames (currentZ oimg) (nFrames oimg)) None s0
        else ij_duplicate h orig (Frames (nFrames oimg)) None s0)
     else ij_duplicate h orig (SliceUse (slice oimg)) None s0)"
  define s2 where "s2 = s1\<lparr>duplicatedCroppedImage := current s1\<rparr>"
  define multi where "multi = (useFramesCheckbox s0 \<and> nFrames (heap s2 ?d) > 1)"
  define sp where "sp = ij_split h ?d s2"
  define base where "base = (if multi then title (heap (snd sp) orig) else title (heap (snd sp) ?d))"
  define s4 where "s4 = extractLoop h multi base (fst sp) 0 (snd sp)"
  define s5 where "s5 = nullLoop (length (fst sp)) s4"
  define s8 where "s8 = imgShow orig (modify orig (setSlice (slice oimg))
      (ij_selectWindow (title (heap s5 orig)) s5))"
  have o0: "originalImage s0 = Some orig" using cur by (simp add: s0_def)
  have c1: "current s1 = Some ?d" by (simp add: s1_def s0_def)
  have d2: "duplicatedCroppedImage s2 = Some ?d" using c1 by (simp add: s2_def)
  have res: "duplicateSplitInvert h s = (Returned Undefined, s8)"
    unfolding duplicateSplitInvert_def Let_def case_prod_beta
    unfolding s0_def [symmetric]
    apply (simp only: o0 option.case)
    unfolding oimg_def [symmetric]
    unfolding s1_def [symmetric]
    unfolding s2_def [symmetric]
    apply (simp only: d2 option.case)
    unfolding multi_def [symmetric]
    unfolding sp_def [symmetric]
    unfolding base_def [symmetric]
    unfolding s4_def [symmetric]
    unfolding s5_def [symmetric]
    unfolding s8_def [symmetric]
    apply (rule refl)
    done
  have h0: "heap s0 = heap s" "nextRef s0 = nextRef s" by (simp_all add: s0_def)
  have nc: "nChannels (heap s2 ?d) = nChannels (heap s orig)"
    by (simp add: s2_def s1_def oimg_def h0)
  have a2: "splitInvertedChannels s2 = splitInvertedChannels s"
    "splitInvertedChannelsFullStack s2 = splitInvertedChannelsFullStack s"
    by (simp_all add: s2_def s1_def s0_def)
  have n: "length (fst sp) = nChannels (heap s orig)"
    by (simp add: sp_def ij_split_props nc)
  have a3: "length (splitInvertedChannels (snd sp)) = 4"
    "length (splitInvertedChannelsFullStack (snd sp)) = 4"
    using l1 l2 by (simp_all add: sp_def ij_split_props a2)
  note e4 = extractLoop_arrays [OF a3, of h multi base "fst sp" 0, folded s4_def]
  have a4: "length (splitInvertedChannels s4) = 4"
    "length (splitInvertedChannelsFullStack s4) = 4"
    using e4 by simp_all
  have v4: "\<And>j. j < 4 \<Longrightarrow> j < length (fst sp) \<Longrightarrow> splitInvertedChannels s4 ! j = Some (fst sp ! j)"
    using e4 by simp
  note e5 = nullLoop_arrays [OF a4, of "length (fst sp)", folded s5_def]
  have a5: "length (splitInvertedChannels s5) = 4" using e5 by simp
  have v5: "\<And>j. j < 4 \<Longrightarrow> splitInvertedChannels s5 ! j =
      (if length (fst sp) \<le> j then None else splitInvertedChannels s4 ! j)"
    using e5 by simp
  have f5: "\<And>j. j < 4 \<Longrightarrow> length (fst sp) \<le> j \<Longrightarrow> splitInvertedChannelsFullStack s5 ! j = None"
    using e5 by simp
  have a8: "splitInvertedChannels s8 = splitInvertedChannels s5"
    "splitInvertedChannelsFullStack s8 = splitInvertedChannelsFullStack s5"
    by (simp_all add: s8_def)
  have len: "length (splitInvertedChannels s8) = 4" using a5 a8 by simp
  have cnt: "length (filter (\<lambda>e. e \<noteq> None) (splitInvertedChannels s8)) \<le> 4"
    using length_filter_le [of "\<lambda>e. e \<noteq> None" "splitInvertedChannels s8"] len by simp
  have pop: "\<forall>k<4. (splitInvertedChannels s8 ! k \<noteq> None) = (k < nChannels (heap s orig))"
  proof (intro allI impI)
    fix k :: nat assume k: "k < 4"
    show "(splitInvertedChannels s8 ! k \<noteq> None) = (k < nChannels (heap s orig))"
    proof (cases "k < length (fst sp)")
      case True
      then show ?thesis using v5 [OF k] v4 [OF k True] n a8 by simp
    next
      case False
      then show ?thesis using v5 [OF k] n a8 by simp
    qed
  qed
  have nul: "\<forall>k<4. nChannels (heap s orig) \<le> k \<longrightarrow>
        splitInvertedChannels s8 ! k = None \<and> splitInvertedChannelsFullStack s8 ! k = None"
    using v5 f5 n a8 by simp
  show ?thesis
    using res len cnt pop nul by (intro exI [of _ s8]) simp
qed

text \<open>A 2-channel source: entries 0 and 1 are populated, entries 2 and 3 are null.\<close>

theorem extractor_entries_witness:
  "\<exists>s'. duplicateSplitInvert sampleHost (initialState (sampleSource 2 3)) = (Returned Undefined, s') \<and>
     length (splitInvertedChannels s') = 4 \<and>
     splitInvertedChannels s' ! 0 \<noteq> None \<and> splitInvertedChannels s' ! 1 \<noteq> None \<and>
     splitInvertedChannels s' ! 2 = None \<and> splitInvertedChannels s' ! 3 = None"
proof -
  let ?s = "initialState (sampleSource 2 3)"
  have a: "current ?s = Some 0" "length (splitInvertedChannels ?s) = 4"
    "length (splitInvertedChannelsFullStack ?s) = 4"
    by (simp_all add: initialState_def)
  have n: "nChannels (heap ?s 0) = 2" by (simp add: initialState_def sampleSource_def)
  from extractor_entries [OF a, of sampleHost]
  obtain s' where r: "duplicateSplitInvert sampleHost ?s = (Returned Undefined, s')"
    "length (splitInvertedChannels s') = 4"
    "\<forall>k<4. (splitInvertedChannels s' ! k \<noteq> None) = (k < nChannels (heap ?s 0))"
    by blast
  have "splitInvertedChannels s' ! 0 \<noteq> None" "splitInvertedChannels s' ! 1 \<noteq> None"
    "splitInvertedChannels s' ! 2 = None" "splitInvertedChannels s' ! 3 = None"
    using r(3) [rule_format, of 0] r(3) [rule_format, of 1] r(3) [rule_format, of 2]
      r(3) [rule_format, of 3] n by simp_all
  then show ?thesis using r(1,2) by blast
qed

section \<open>The Merger: proofs\<close>

lemma op_fields [simp]:
  "heap (imgHide r s) = (heap s)(r := (heap s r)\<lparr>visible := False\<rparr>)"
  "heap (imgClose r s) = (heap s)(r := (heap s r)\<lparr>visible := False, closed := True\<rparr>)"
  "heap (setChanges r b s) = (heap s)(r := (heap s r)\<lparr>changes := b\<rparr>)"
  "heap (setTitle r t s) = (heap s)(r := (heap s r)\<lparr>title := t\<rparr>)"
  "heap (imgShow r s) = (heap s)(r := (heap s r)\<lparr>visible := True\<rparr>)"
  "heap (copySpatial c r s) = (heap s)(r := (heap s r)\<lparr>cal := (cal (heap s r))
      \<lparr>pixelWidth := pixelWidth c, pixelHeight := pixelHeight c, unit := unit c\<rparr>\<rparr>)"
  "heap (copyTemporal c r s) = (heap s)(r := (heap s r)\<lparr>cal := (cal (heap s r))
      \<lparr>frameInterval := frameInterval c, fps := fps c\<rparr>\<rparr>)"
  "heap (showMessage t m s) = heap s"
  by (simp_all add: imgHide_def imgClose_def setChanges_def setTitle_def imgShow_def
      copySpatial_def copyTemporal_def showMessage_def)

lemma op_messages [simp]:
  "messages (imgHide r s) = messages s" "messages (imgClose r s) = messages s"
  "messages (setChanges r b s) = messages s" "messages (setTitle r t s) = messages s"
  "messages (imgShow r s) = messages s" "messages (copySpatial c r s) = messages s"
  "messages (copyTemporal c r s) = messages s"
  "messages (showMessage t m s) = messages s @ [(t, m)]"
  by (simp_all add: imgHide_def imgClose_def setChanges_def setTitle_def imgShow_def
      copySpatial_def copyTemporal_def showMessage_def)

lemma op_nextRef [simp]:
  "nextRef (imgHide r s) = nextRef s" "nextRef (imgClose r s) = nextRef s"
  "nextRef (setChanges r b s) = nextRef s" "nextRef (setTitle r t s) = nextRef s"
  "nextRef (imgShow r s) = nextRef s" "nextRef (copySpatial c r s) = nextRef s"
  "nextRef (copyTemporal c r s) = nextRef s" "nextRef (showMessage t m s) = nextRef s"
  by (simp_all add: imgHide_def imgClose_def setChanges_def setTitle_def imgShow_def
      copySpatial_def copyTemporal_def showMessage_def)

lemma fold_frame:
  assumes "\<And>r s'. r \<noteq> q \<Longrightarrow> heap (F r s') q = heap s' q" and "q \<notin> set rs"
  shows "heap (fold F rs s) q = heap s q"
  using assms(2)
proof (induction rs arbitrary: s)
  case Nil
  then show ?case by simp
next
  case (Cons r rs)
  then have "r \<noteq> q" "q \<notin> set rs" by auto
  then show ?case using Cons.IH [of "F r s"] assms(1) [of r s] by simp
qed

lemma fold_messages:
  assumes "\<And>r s'. messages (F r s') = messages s'"
  shows "messages (fold F rs s) = messages s"
  by (induction rs arbitrary: s) (simp_all add: assms)

lemma fold_nextRef:
  assumes "\<And>r s'. nextRef (F r s') = nextRef s'"
  shows "nextRef (fold F rs s) = nextRef s"
  by (induction rs arbitrary: s) (simp_all add: assms)

lemma promote16_props:
  "messages (promote16 h rs s) = messages s"
  "nextRef (promote16 h rs s) = nextRef s"
  "q \<notin> set rs \<Longrightarrow> heap (promote16 h rs s) q = heap s q"
proof -
  show "messages (promote16 h rs s) = messages s"
    unfolding promote16_def by (rule fold_messages) simp
  show "nextRef (promote16 h rs s) = nextRef s"
    unfolding promote16_def by (rule fold_nextRef) simp
  show "q \<notin> set rs \<Longrightarrow> heap (promote16 h rs s) q = heap s q"
    unfolding promote16_def by (rule fold_frame) simp_all
qed

lemma promote16_flags:
  "closed (heap (promote16 h rs s) q) = closed (heap s q)"
  unfolding promote16_def
  by (induction rs arbitrary: s) simp_all

lemma closeAll_props:
  "messages (fold (\<lambda>r s'. imgClose r (setChanges r False s')) rs s) = messages s"
  "q \<notin> set rs \<Longrightarrow> heap (fold (\<lambda>r s'. imgClose r (setChanges r False s')) rs s) q = heap s q"
proof -
  show "messages (fold (\<lambda>r s'. imgClose r (setChanges r False s')) rs s) = messages s"
    by (rule fold_messages) simp
  show "q \<notin> set rs \<Longrightarrow> heap (fold (\<lambda>r s'. imgClose r (setChanges r False s')) rs s) q = heap s q"
    by (rule fold_frame) simp_all
qed

lemma closeAll_closed:
  "q \<in> set rs \<Longrightarrow>
   closed (heap (fold (\<lambda>r s'. imgClose r (setChanges r False s')) rs s) q) \<and>
   \<not> changes (heap (fold (\<lambda>r s'. imgClose r (setChanges r False s')) rs s) q)"
proof (induction rs arbitrary: s)
  case Nil
  then show ?case by simp
next
  case (Cons r rs)
  show ?case
  proof (cases "q \<in> set rs")
    case True
    then show ?thesis using Cons.IH by simp
  next
    case False
    then have "q = r" using Cons.prems by simp
    then show ?thesis using False closeAll_props(2) [OF False] by simp
  qed
qed

lemma changesAll_props:
  "messages (fold (\<lambda>r s'. setChanges r False s') rs s) = messages s"
  "q \<notin> set rs \<Longrightarrow> heap (fold (\<lambda>r s'. setChanges r False s') rs s) q = heap s q"
proof -
  show "messages (fold (\<lambda>r s'. setChanges r False s') rs s) = messages s"
    by (rule fold_messages) simp
  show "q \<notin> set rs \<Longrightarrow> heap (fold (\<lambda>r s'. setChanges r False s') rs s) q = heap s q"
    by (rule fold_frame) simp_all
qed

lemma closeOnly_props:
  "messages (fold (\<lambda>r s'. imgClose r s') rs s) = messages s"
  "q \<notin> set rs \<Longrightarrow> heap (fold (\<lambda>r s'. imgClose r s') rs s) q = heap s q"
proof -
  show "messages (fold (\<lambda>r s'. imgClose r s') rs s) = messages s"
    by (rule fold_messages) simp
  show "q \<notin> set rs \<Longrightarrow> heap (fold (\<lambda>r s'. imgClose r s') rs s) q = heap s q"
    by (rule fold_frame) simp_all
qed

lemma ij_split_more:
  "fst (ij_split h r s) = [nextRef s..<nextRef s + nChannels (heap s r)]"
  "nextRef (snd (ij_split h r s)) = nextRef s + nChannels (heap s r)"
  "messages (snd (ij_split h r s)) = messages s"
  "q < nextRef s \<Longrightarrow> heap (snd (ij_split h r s)) q = heap s q"
  by (simp_all add: ij_split_def allocAll_fst allocAll_nextRef allocAll_heap)

lemma set_collectToMerge: "set (collectToMerge cb split) \<subseteq> set split"
  by (auto simp: collectToMerge_def)

lemma merger_multi_some:
  assumes o: "originalImage s = Some orig" and a: "orig < nextRef s"
    and uf: "useFramesCheckbox s" and nf: "nFrames (heap s orig) > 1"
    and tm: "collectToMerge (mergeCheckboxes s)
               [nextRef s + 1..<nextRef s + 1 + nChannels (heap s orig)] \<noteq> []"
  shows "\<exists>m s'. createMergeOnly h showImage s = (Obj m, s') \<and>
     pixelWidth (cal (heap s' m)) = pixelWidth (cal (heap s orig)) \<and>
     pixelHeight (cal (heap s' m)) = pixelHeight (cal (heap s orig)) \<and>
     unit (cal (heap s' m)) = unit (cal (heap s orig)) \<and>
     frameInterval (cal (heap s' m)) = frameInterval (cal (heap s orig)) \<and>
     fps (cal (heap s' m)) = fps (cal (heap s orig)) \<and>
     bitDepth (heap s' m) = 24 \<and> visible (heap s' m) = showImage \<and>
     messages s' = messages s"
proof -
  let ?d = "nextRef s"
  define oimg where "oimg = heap s orig"
  define ut where "ut = ''C'' @ ''TempForMerge_'' @ showNat (mergeCount s)"
  define s1 where "s1 = s\<lparr>mergeCount := mergeCount s + 1\<rparr>"
  define s2 where "s2 =
    (if useFramesCheckbox s \<and> nFrames oimg > 1 then
       (if nSlices oimg > 1
        then ij_duplicate h orig (SliceFrames (currentZ oimg) (nFrames oimg)) (Some ut) s1
        else ij_duplicate h orig (Frames (nFrames oimg)) (Some ut) s1)
     else ij_duplicate h orig (SliceUse (slice oimg)) (Some ut) s1)"
  define sp where "sp = ij_split h ?d s2"
  define s4 where "s4 = promote16 h (fst sp) (snd sp)"
  define toMerge where "toMerge = collectToMerge (mergeCheckboxes s) (fst sp)"
  define mg where "mg = ij_mergeChannels h toMerge s4"
  define s6 where "s6 = modify (fst mg) (rgbColor h) (snd mg)"
  define s7 where "s7 = setTitle (fst mg) (''Merged_TimeStack_'' @ ut) s6"
  define c where "c = cal (heap s7 orig)"
  define s8 where "s8 = copyTemporal c (fst mg) (copySpatial c (fst mg) s7)"
  define s9 where "s9 = modify (fst mg) (setSlice 1) s8"
  define s10 where "s10 = (if showImage then imgShow (fst mg) s9 else imgHide (fst mg) s9)"
  define s11 where "s11 = imgClose ?d (setChanges ?d False s10)"
  define s12 where "s12 = fold (\<lambda>r s'. imgClose r (setChanges r False s')) (fst sp) s11"
  have s1f: "nextRef s1 = ?d" "heap s1 = heap s" "messages s1 = messages s"
    by (simp_all add: s1_def)
  have c2: "current s2 = Some ?d" by (simp add: s2_def s1f)
  have n2: "nextRef s2 = ?d + 1" "messages s2 = messages s" by (simp_all add: s2_def s1f)
  have d2: "nFrames (heap s2 ?d) = nFrames oimg" "nChannels (heap s2 ?d) = nChannels oimg"
    using uf nf by (simp_all add: s2_def s1f oimg_def)
  have h2: "heap s2 orig = heap s orig" using a by (simp add: s2_def s1f)
  have multi: "useFramesCheckbox s \<and> nFrames (heap s2 ?d) > 1" using uf nf d2 by (simp add: oimg_def)
  have arr: "fst sp = [?d + 1..<?d + 1 + nChannels oimg]"
    by (simp add: sp_def ij_split_more n2 d2)
  have tm': "length toMerge > 0" using tm by (simp add: toMerge_def arr oimg_def)
  have res: "createMergeOnly h showImage s = (Obj (fst mg), s12)"
    unfolding createMergeOnly_def Let_def case_prod_beta
    apply (simp only: o option.case)
    unfolding oimg_def [symmetric]
    unfolding ut_def [symmetric]
    unfolding s1_def [symmetric]
    unfolding s2_def [symmetric]
    apply (simp only: c2 option.case multi if_True simp_thms)
    unfolding sp_def [symmetric]
    unfolding s4_def [symmetric]
    unfolding toMerge_def [symmetric]
    apply (simp only: tm' if_True)
    unfolding mg_def [symmetric]
    unfolding s6_def [symmetric]
    unfolding s7_def [symmetric]
    unfolding c_def [symmetric]
    unfolding s8_def [symmetric]
    unfolding s9_def [symmetric]
    unfolding s10_def [symmetric]
    unfolding s11_def [symmetric]
    unfolding s12_def [symmetric]
    apply (rule refl)
    done
  have n3: "nextRef (snd sp) = ?d + 1 + nChannels oimg" "messages (snd sp) = messages s"
    by (simp_all add: sp_def ij_split_more n2 d2)
  have h3: "heap (snd sp) orig = heap s orig"
    using a h2 by (simp add: sp_def ij_split_more n2)
  have orig_out: "orig \<notin> set (fst sp)" "orig \<noteq> ?d" using a by (simp_all add: arr)
  have n4: "nextRef s4 = ?d + 1 + nChannels oimg" "messages s4 = messages s"
    by (simp_all add: s4_def promote16_props n3)
  have h4: "heap s4 orig = heap s orig"
    using orig_out h3 by (simp add: s4_def promote16_props)
  have m: "fst mg = ?d + 1 + nChannels oimg" by (simp add: mg_def ij_mergeChannels_def n4)
  have mne: "orig \<noteq> fst mg" "fst mg \<noteq> ?d" "fst mg \<notin> set (fst sp)" using a by (simp_all add: m arr)
  have h5: "heap (snd mg) orig = heap s orig" "messages (snd mg) = messages s"
    using mne h4 by (simp_all add: mg_def ij_mergeChannels_def n4)
  have h7: "heap s7 orig = heap s orig" "messages s7 = messages s"
    using mne h5 by (simp_all add: s7_def s6_def)
  have c: "c = cal (heap s orig)" by (simp add: c_def h7)
  have d8: "cal (heap s8 (fst mg)) = (cal (heap s7 (fst mg)))
      \<lparr>pixelWidth := pixelWidth c, pixelHeight := pixelHeight c, unit := unit c,
       frameInterval := frameInterval c, fps := fps c\<rparr>"
    "bitDepth (heap s8 (fst mg)) = 24" "messages s8 = messages s"
    by (simp_all add: s8_def s7_def s6_def rgbColor_def h5)
  have d9: "cal (heap s9 (fst mg)) = cal (heap s8 (fst mg))" "bitDepth (heap s9 (fst mg)) = 24"
    "messages s9 = messages s"
    using d8 by (simp_all add: s9_def setSlice_def)
  have d10: "cal (heap s10 (fst mg)) = cal (heap s8 (fst mg))" "bitDepth (heap s10 (fst mg)) = 24"
    "visible (heap s10 (fst mg)) = showImage" "messages s10 = messages s"
    using d9 by (simp_all add: s10_def)
  have d11: "heap s11 (fst mg) = heap s10 (fst mg)" "messages s11 = messages s"
    using mne d10 by (simp_all add: s11_def)
  have d12: "heap s12 (fst mg) = heap s10 (fst mg)" "messages s12 = messages s"
    using mne d11 by (simp_all add: s12_def closeAll_props)
  show ?thesis
    using res d12 d10 d8 c by (intro exI [of _ "fst mg"] exI [of _ s12]) simp
qed

lemma duplicated_flags [simp]:
  "closed (duplicated h sel ttl img) = False" "changes (duplicated h sel ttl img) = False"
  by (simp_all add: duplicated_def)

lemma channelOf_flags [simp]:
  "closed (channelOf h img c) = False" "changes (channelOf h img c) = False"
  by (simp_all add: channelOf_def)

lemma ij_split_new:
  "q \<in> set (fst (ij_split h r s)) \<Longrightarrow> \<not> closed (heap (snd (ij_split h r s)) q)"
  by (auto simp: ij_split_def allocAll_fst allocAll_heap)

lemma merger_multi_none:
  assumes o: "originalImage s = Some orig"
    and uf: "useFramesCheckbox s" and nf: "nFrames (heap s orig) > 1"
    and tm: "collectToMerge (mergeCheckboxes s)
               [nextRef s + 1..<nextRef s + 1 + nChannels (heap s orig)] = []"
  shows "\<exists>s'. createMergeOnly h showImage s = (Undefined, s') \<and>
     messages s' = messages s \<and>
     nextRef s' = nextRef s + 1 + nChannels (heap s orig) \<and>
     (\<forall>q. nextRef s \<le> q \<and> q < nextRef s' \<longrightarrow> \<not> closed (heap s' q))"
proof -
  let ?d = "nextRef s"
  define oimg where "oimg = heap s orig"
  define ut where "ut = ''C'' @ ''TempForMerge_'' @ showNat (mergeCount s)"
  define s1 where "s1 = s\<lparr>mergeCount := mergeCount s + 1\<rparr>"
  define s2 where "s2 =
    (if useFramesCheckbox s \<and> nFrames oimg > 1 then
       (if nSlices oimg > 1
        then ij_duplicate h orig (SliceFrames (currentZ oimg) (nFrames oimg)) (Some ut) s1
        else ij_duplicate h orig (Frames (nFrames oimg)) (Some ut) s1)
     else ij_duplicate h orig (SliceUse (slice oimg)) (Some ut) s1)"
  define sp where "sp = ij_split h ?d s2"
  define s4 where "s4 = promote16 h (fst sp) (snd sp)"
  define toMerge where "toMerge = collectToMerge (mergeCheckboxes s) (fst sp)"
  have s1f: "nextRef s1 = ?d" "heap s1 = heap s" "messages s1 = messages s"
    by (simp_all add: s1_def)
  have c2: "current s2 = Some ?d" by (simp add: s2_def s1f)
  have n2: "nextRef s2 = ?d + 1" "messages s2 = messages s" by (simp_all add: s2_def s1f)
  have d2: "nFrames (heap s2 ?d) = nFrames oimg" "nChannels (heap s2 ?d) = nChannels oimg"
    "\<not> closed (heap s2 ?d)"
    using uf nf by (simp_all add: s2_def s1f oimg_def)
  have multi: "useFramesCheckbox s \<and> nFrames (heap s2 ?d) > 1" using uf nf d2 by (simp add: oimg_def)
  have arr: "fst sp = [?d + 1..<?d + 1 + nChannels oimg]"
    by (simp add: sp_def ij_split_more n2 d2)
  have tm': "\<not> length toMerge > 0" using tm by (simp add: toMerge_def arr oimg_def)
  have res: "createMergeOnly h showImage s = (Undefined, s4)"
    unfolding createMergeOnly_def Let_def case_prod_beta
    apply (simp only: o option.case)
    unfolding oimg_def [symmetric]
    unfolding ut_def [symmetric]
    unfolding s1_def [symmetric]
    unfolding s2_def [symmetric]
    apply (simp only: c2 option.case multi if_True simp_thms)
    unfolding sp_def [symmetric]
    unfolding s4_def [symmetric]
    unfolding toMerge_def [symmetric]
    apply (simp only: tm' if_False)
    done
  have n4: "nextRef s4 = ?d + 1 + nChannels oimg" "messages s4 = messages s"
    by (simp_all add: s4_def promote16_props sp_def ij_split_more n2 d2)
  have open4: "\<not> closed (heap s4 q)" if "?d \<le> q" "q < ?d + 1 + nChannels oimg" for q
  proof (cases "q = ?d")
    case True
    have "heap (snd sp) ?d = heap s2 ?d" by (simp add: sp_def ij_split_more n2)
    then show ?thesis using True d2 by (simp add: s4_def promote16_flags)
  next
    case False
    then have "q \<in> set (fst sp)" using that by (auto simp: arr)
    then have "\<not> closed (heap (snd sp) q)" unfolding sp_def by (rule ij_split_new)
    then show ?thesis by (simp add: s4_def promote16_flags)
  qed
  show ?thesis
    using res n4 open4 by (intro exI [of _ s4]) (simp add: oimg_def)
qed

lemma merger_single_none:
  assumes o: "originalImage s = Some orig"
    and sf: "\<not> (useFramesCheckbox s \<and> nFrames (heap s orig) > 1)"
    and nc: "1 \<le> nChannels (heap s orig)"
    and tm: "collectToMerge (mergeCheckboxes s)
               [nextRef s + 1..<nextRef s + 1 + nChannels (heap s orig)] = []"
  shows "\<exists>s'. createMergeOnly h showImage s = (Null, s') \<and>
     messages s' = messages s \<and>
     nextRef s' = nextRef s + 1 + nChannels (heap s orig) \<and>
     (\<forall>q. nextRef s \<le> q \<and> q < nextRef s' \<longrightarrow> closed (heap s' q) \<and> \<not> changes (heap s' q))"
proof -
  let ?d = "nextRef s"
  define oimg where "oimg = heap s orig"
  define ut where "ut = ''C'' @ ''TempForMerge_'' @ showNat (mergeCount s)"
  define s1 where "s1 = s\<lparr>mergeCount := mergeCount s + 1\<rparr>"
  define s2 where "s2 =
    (if useFramesCheckbox s \<and> nFrames oimg > 1 then
       (if nSlices oimg > 1
        then ij_duplicate h orig (SliceFrames (currentZ oimg) (nFrames oimg)) (Some ut) s1
        else ij_duplicate h orig (Frames (nFrames oimg)) (Some ut) s1)
     else ij_duplicate h orig (SliceUse (slice oimg)) (Some ut) s1)"
  define sp where "sp = ij_split h ?d s2"
  define s4 where "s4 = promote16 h (fst sp) (snd sp)"
  define toMerge where "toMerge = collectToMerge (mergeCheckboxes s) (fst sp)"
  define s5 where "s5 = imgClose ?d (setChanges ?d False s4)"
  define s6 where "s6 = fold (\<lambda>r s'. imgClose r (setChanges r False s')) (fst sp) s5"
  have s1f: "nextRef s1 = ?d" "heap s1 = heap s" "messages s1 = messages s"
    by (simp_all add: s1_def)
  have c2: "current s2 = Some ?d" by (simp add: s2_def s1f)
  have n2: "nextRef s2 = ?d + 1" "messages s2 = messages s" by (simp_all add: s2_def s1f)
  have d2: "nFrames (heap s2 ?d) = 1" "nChannels (heap s2 ?d) = nChannels oimg"
    using sf by (simp_all add: s2_def s1f oimg_def)
  have single: "\<not> (useFramesCheckbox s \<and> nFrames (heap s2 ?d) > 1)" using d2 by simp
  have arr: "fst sp = [?d + 1..<?d + 1 + nChannels oimg]"
    by (simp add: sp_def ij_split_more n2 d2)
  have ne: "\<not> length (fst sp) < 1" using nc by (simp add: arr oimg_def)
  have tm': "length toMerge = 0" using tm by (simp add: toMerge_def arr oimg_def)
  have res: "createMergeOnly h showImage s = (Null, s6)"
    unfolding createMergeOnly_def Let_def case_prod_beta
    apply (simp only: o option.case)
    unfolding oimg_def [symmetric]
    unfolding ut_def [symmetric]
    unfolding s1_def [symmetric]
    unfolding s2_def [symmetric]
    apply (simp only: c2 option.case single if_False simp_thms)
    unfolding sp_def [symmetric]
    apply (simp only: ne if_False)
    unfolding s4_def [symmetric]
    unfolding toMerge_def [symmetric]
    apply (simp only: tm' if_True simp_thms)
    unfolding s5_def [symmetric]
    unfolding s6_def [symmetric]
    apply (rule refl)
    done
  have n4: "nextRef s4 = ?d + 1 + nChannels oimg" "messages s4 = messages s"
    by (simp_all add: s4_def promote16_props sp_def ij_split_more n2 d2)
  have n6: "nextRef s6 = ?d + 1 + nChannels oimg" "messages s6 = messages s"
  proof -
    show "nextRef s6 = ?d + 1 + nChannels oimg"
      unfolding s6_def using n4 by (subst fold_nextRef) (simp_all add: s5_def)
    show "messages s6 = messages s"
      by (simp add: s6_def closeAll_props s5_def n4)
  qed
  have cl: "closed (heap s6 q) \<and> \<not> changes (heap s6 q)"
    if "?d \<le> q" "q < ?d + 1 + nChannels oimg" for q
  proof (cases "q = ?d")
    case True
    then have "q \<notin> set (fst sp)" by (simp add: arr)
    then have "heap s6 q = heap s5 q" by (simp add: s6_def closeAll_props)
    then show ?thesis using True by (simp add: s5_def)
  next
    case False
    then have "q \<in> set (fst sp)" using that by (auto simp: arr)
    then show ?thesis unfolding s6_def by (rule closeAll_closed)
  qed
  show ?thesis
    using res n6 cl by (intro exI [of _ s6]) (simp add: oimg_def)
qed

lemma merger_single_some:
  assumes o: "originalImage s = Some orig" and a: "orig < nextRef s"
    and sf: "\<not> (useFramesCheckbox s \<and> nFrames (heap s orig) > 1)"
    and tm: "collectToMerge (mergeCheckboxes s)
               [nextRef s + 1..<nextRef s + 1 + nChannels (heap s orig)] \<noteq> []"
  shows "\<exists>m s'. createMergeOnly h showImage s = (Obj m, s') \<and>
     pixelWidth (cal (heap s' m)) = pixelWidth (cal (heap s orig)) \<and>
     pixelHeight (cal (heap s' m)) = pixelHeight (cal (heap s orig)) \<and>
     unit (cal (heap s' m)) = unit (cal (heap s orig)) \<and>
     bitDepth (heap s' m) = 24 \<and> visible (heap s' m) = showImage \<and>
     messages s' = messages s"
proof -
  let ?d = "nextRef s"
  define oimg where "oimg = heap s orig"
  define ut where "ut = ''C'' @ ''TempForMerge_'' @ showNat (mergeCount s)"
  define s1 where "s1 = s\<lparr>mergeCount := mergeCount s + 1\<rparr>"
  define s2 where "s2 =
    (if useFramesCheckbox s \<and> nFrames oimg > 1 then
       (if nSlices oimg > 1
        then ij_duplicate h orig (SliceFrames (currentZ oimg) (nFrames oimg)) (Some ut) s1
        else ij_duplicate h orig (Frames (nFrames oimg)) (Some ut) s1)
     else ij_duplicate h orig (SliceUse (slice oimg)) (Some ut) s1)"
  define sp where "sp = ij_split h ?d s2"
  define s4 where "s4 = promote16 h (fst sp) (snd sp)"
  define toMerge where "toMerge = collectToMerge (mergeCheckboxes s) (fst sp)"
  define mg where "mg = ij_mergeChannels h toMerge s4"
  define s6 where "s6 = modify (fst mg) (rgbColor h) (snd mg)"
  define s7 where "s7 = setTitle (fst mg)
      (''Merged_'' @ join ''_'' (map (\<lambda>r. title (heap s6 r)) toMerge)) s6"
  define c where "c = cal (heap s7 orig)"
  define s8 where "s8 = copySpatial c (fst mg) s7"
  define s9 where "s9 = (if showImage then imgShow (fst mg) s8 else imgHide (fst mg) s8)"
  define s10 where "s10 = setChanges ?d False s9"
  define s11 where "s11 = fold (\<lambda>r s'. setChanges r False s') (fst sp) s10"
  define s12 where "s12 = imgClose ?d s11"
  define s13 where "s13 = fold (\<lambda>r s'. imgClose r s') (fst sp) s12"
  have s1f: "nextRef s1 = ?d" "heap s1 = heap s" "messages s1 = messages s"
    by (simp_all add: s1_def)
  have c2: "current s2 = Some ?d" by (simp add: s2_def s1f)
  have n2: "nextRef s2 = ?d + 1" "messages s2 = messages s" by (simp_all add: s2_def s1f)
  have d2: "nFrames (heap s2 ?d) = 1" "nChannels (heap s2 ?d) = nChannels oimg"
    using sf by (simp_all add: s2_def s1f oimg_def)
  have h2: "heap s2 orig = heap s orig" using a by (simp add: s2_def s1f)
  have single: "\<not> (useFramesCheckbox s \<and> nFrames (heap s2 ?d) > 1)" using d2 by simp
  have arr: "fst sp = [?d + 1..<?d + 1 + nChannels oimg]"
    by (simp add: sp_def ij_split_more n2 d2)
  have tmne: "toMerge \<noteq> []" using tm by (simp add: toMerge_def arr oimg_def)
  have "set toMerge \<subseteq> set (fst sp)" unfolding toMerge_def by (rule set_collectToMerge)
  then have "fst sp \<noteq> []" using tmne by auto
  then have ne: "\<not> length (fst sp) < 1" by (cases "fst sp") simp_all
  have tm': "\<not> length toMerge = 0" using tmne by simp
  have res: "createMergeOnly h showImage s = (Obj (fst mg), s13)"
    unfolding createMergeOnly_def Let_def case_prod_beta
    apply (simp only: o option.case)
    unfolding oimg_def [symmetric]
    unfolding ut_def [symmetric]
    unfolding s1_def [symmetric]
    unfolding s2_def [symmetric]
    apply (simp only: c2 option.case single if_False simp_thms)
    unfolding sp_def [symmetric]
    apply (simp only: ne if_False)
    unfolding s4_def [symmetric]
    unfolding toMerge_def [symmetric]
    apply (simp only: tm' if_False)
    unfolding mg_def [symmetric]
    unfolding s6_def [symmetric]
    unfolding s7_def [symmetric]
    unfolding c_def [symmetric]
    unfolding s8_def [symmetric]
    unfolding s9_def [symmetric]
    unfolding s10_def [symmetric]
    unfolding s11_def [symmetric]
    unfolding s12_def [symmetric]
    unfolding s13_def [symmetric]
    apply (rule refl)
    done
  have n3: "nextRef (snd sp) = ?d + 1 + nChannels oimg" "messages (snd sp) = messages s"
    by (simp_all add: sp_def ij_split_more n2 d2)
  have h3: "heap (snd sp) orig = heap s orig"
    using a h2 by (simp add: sp_def ij_split_more n2)
  have orig_out: "orig \<notin> set (fst sp)" "orig \<noteq> ?d" using a by (simp_all add: arr)
  have n4: "nextRef s4 = ?d + 1 + nChannels oimg" "messages s4 = messages s"
    by (simp_all add: s4_def promote16_props n3)
  have h4: "heap s4 orig = heap s orig"
    using orig_out h3 by (simp add: s4_def promote16_props)
  have m: "fst mg = ?d + 1 + nChannels oimg" by (simp add: mg_def ij_mergeChannels_def n4)
  have mne: "orig \<noteq> fst mg" "fst mg \<noteq> ?d" "fst mg \<notin> set (fst sp)" using a by (simp_all add: m arr)
  have h5: "heap (snd mg) orig = heap s orig" "messages (snd mg) = messages s"
    using mne h4 by (simp_all add: mg_def ij_mergeChannels_def n4)
  have h7: "heap s7 orig = heap s orig" "messages s7 = messages s"
    using mne h5 by (simp_all add: s7_def s6_def)
  have c: "c = cal (heap s orig)" by (simp add: c_def h7)
  have d8: "pixelWidth (cal (heap s8 (fst mg))) = pixelWidth c"
    "pixelHeight (cal (heap s8 (fst mg))) = pixelHeight c"
    "unit (cal (heap s8 (fst mg))) = unit c"
    "bitDepth (heap s8 (fst mg)) = 24" "messages s8 = messages s"
    by (simp_all add: s8_def s7_def s6_def rgbColor_def h5)
  have d9: "cal (heap s9 (fst mg)) = cal (heap s8 (fst mg))" "bitDepth (heap s9 (fst mg)) = 24"
    "visible (heap s9 (fst mg)) = showImage" "messages s9 = messages s"
    using d8 by (simp_all add: s9_def)
  have d10: "heap s10 (fst mg) = heap s9 (fst mg)" "messages s10 = messages s"
    using mne d9 by (simp_all add: s10_def)
  have d11: "heap s11 (fst mg) = heap s9 (fst mg)" "messages s11 = messages s"
    using mne d10 by (simp_all add: s11_def changesAll_props)
  have d12: "heap s12 (fst mg) = heap s9 (fst mg)" "messages s12 = messages s"
    using mne d11 by (simp_all add: s12_def)
  have d13: "heap s13 (fst mg) = heap s9 (fst mg)" "messages s13 = messages s"
    using mne d12 by (simp_all add: s13_def closeOnly_props)
  show ?thesis
    using res d13 d9 d8 c by (intro exI [of _ "fst mg"] exI [of _ s13]) simp
qed

lemma merger_single_nochannel:
  assumes o: "originalImage s = Some orig"
    and sf: "\<not> (useFramesCheckbox s \<and> nFrames (heap s orig) > 1)"
    and nc: "nChannels (heap s orig) = 0"
  shows "\<exists>s'. createMergeOnly h showImage s = (Null, s')"
proof -
  let ?d = "nextRef s"
  define oimg where "oimg = heap s orig"
  define ut where "ut = ''C'' @ ''TempForMerge_'' @ showNat (mergeCount s)"
  define s1 where "s1 = s\<lparr>mergeCount := mergeCount s + 1\<rparr>"
  define s2 where "s2 =
    (if useFramesCheckbox s \<and> nFrames oimg > 1 then
       (if nSlices oimg > 1
        then ij_duplicate h orig (SliceFrames (currentZ oimg) (nFrames oimg)) (Some ut) s1
        else ij_duplicate h orig (Frames (nFrames oimg)) (Some ut) s1)
     else ij_duplicate h orig (SliceUse (slice oimg)) (Some ut) s1)"
  define sp where "sp = ij_split h ?d s2"
  have s1f: "nextRef s1 = ?d" "heap s1 = heap s" by (simp_all add: s1_def)
  have c2: "current s2 = Some ?d" by (simp add: s2_def s1f)
  have d2: "nFrames (heap s2 ?d) = 1" "nChannels (heap s2 ?d) = nChannels oimg"
    using sf by (simp_all add: s2_def s1f oimg_def)
  have single: "\<not> (useFramesCheckbox s \<and> nFrames (heap s2 ?d) > 1)" using d2 by simp
  have ne: "length (fst sp) < 1" using nc by (simp add: sp_def ij_split_props d2 oimg_def)
  have "createMergeOnly h showImage s =
      (Null, showMessage ''Error'' ''No channels available in the duplicated image.'' (snd sp))"
    unfolding createMergeOnly_def Let_def case_prod_beta
    apply (simp only: o option.case)
    unfolding oimg_def [symmetric]
    unfolding ut_def [symmetric]
    unfolding s1_def [symmetric]
    unfolding s2_def [symmetric]
    apply (simp only: c2 option.case single if_False simp_thms)
    unfolding sp_def [symmetric]
    apply (simp only: ne if_True)
    done
  then show ?thesis by blast
qed

text \<open>
  Claim C5. Whenever the Merger returns a composite, the composite's pixel width, pixel
  height and unit are those of the original image, and in multi-frame mode (the checkbox
  is checked and the original has more than one frame) so are its frame interval and its
  frame rate. The fields are bit patterns: equal means bit for bit.
\<close>

theorem merger_calibration:
  assumes o: "originalImage s = Some orig" and a: "orig < nextRef s"
    and r: "createMergeOnly h showImage s = (Obj m, s')"
  shows "pixelWidth (cal (heap s' m)) = pixelWidth (cal (heap s orig)) \<and>
     pixelHeight (cal (heap s' m)) = pixelHeight (cal (heap s orig)) \<and>
     unit (cal (heap s' m)) = unit (cal (heap s orig)) \<and>
     (useFramesCheckbox s \<and> nFrames (heap s orig) > 1 \<longrightarrow>
        frameInterval (cal (heap s' m)) = frameInterval (cal (heap s orig)) \<and>
        fps (cal (heap s' m)) = fps (cal (heap s orig)))"
proof (cases "useFramesCheckbox s \<and> nFrames (heap s orig) > 1")
  case multi: True
  then have uf: "useFramesCheckbox s" and nf: "nFrames (heap s orig) > 1" by simp_all
  show ?thesis
  proof (cases "collectToMerge (mergeCheckboxes s)
               [nextRef s + 1..<nextRef s + 1 + nChannels (heap s orig)] = []")
    case True
    from merger_multi_none [OF o uf nf True, of h showImage] r show ?thesis by auto
  next
    case False
    from merger_multi_some [OF o a uf nf False, of h showImage] r show ?thesis by auto
  qed
next
  case single: False
  show ?thesis
  proof (cases "collectToMerge (mergeCheckboxes s)
               [nextRef s + 1..<nextRef s + 1 + nChannels (heap s orig)] = []")
    case True
    show ?thesis
    proof (cases "nChannels (heap s orig) = 0")
      case True
      from merger_single_nochannel [OF o single True, of h showImage] r show ?thesis by auto
    next
      case False
      then have "1 \<le> nChannels (heap s orig)" by simp
      from merger_single_none [OF o single this True, of h showImage] r show ?thesis by auto
    qed
  next
    case False
    from merger_single_some [OF o a single False, of h showImage] r single show ?thesis by auto
  qed
qed

lemma selected_toMerge:
  "collectToMerge [True, True, False, False] [4..<6] \<noteq> []"
  "collectToMerge [False, False, False, False] [4..<6] = []"
  by (simp_all add: collectToMerge_def upt_rec)

text \<open>
  With the first two merge checkboxes checked the Merger returns a composite in
  single-frame and in multi-frame mode, carrying the source's calibration.
\<close>

theorem merger_calibration_witness:
  "(\<exists>m s'. createMergeOnly sampleHost True (selectedState False) = (Obj m, s') \<and>
      pixelWidth (cal (heap s' m)) = 7 \<and> pixelHeight (cal (heap s' m)) = 9 \<and>
      unit (cal (heap s' m)) = ''um'') \<and>
   (\<exists>m s'. createMergeOnly sampleHost True (selectedState True) = (Obj m, s') \<and>
      pixelWidth (cal (heap s' m)) = 7 \<and> pixelHeight (cal (heap s' m)) = 9 \<and>
      unit (cal (heap s' m)) = ''um'' \<and>
      frameInterval (cal (heap s' m)) = 5 \<and> fps (cal (heap s' m)) = 2)"
proof -
  have f: "originalImage (selectedState b) = Some 0" "0 < nextRef (selectedState b)"
    "heap (selectedState b) 0 = sampleSource 2 3" "nextRef (selectedState b) = 3"
    "mergeCheckboxes (selectedState b) = [True, True, False, False]"
    "useFramesCheckbox (selectedState b) = b" for b
    by (simp_all add: selectedState_def extractedState_def initialState_def)
  have src: "nChannels (sampleSource 2 3) = 2" "nFrames (sampleSource 2 3) = 3"
    "cal (sampleSource 2 3) = \<lparr>pixelWidth = 7, pixelHeight = 9, unit = ''um'',
       frameInterval = 5, fps = 2\<rparr>"
    by (simp_all add: sampleSource_def)
  have tm: "collectToMerge (mergeCheckboxes (selectedState b))
      [nextRef (selectedState b) + 1..<nextRef (selectedState b) + 1
          + nChannels (heap (selectedState b) 0)] \<noteq> []" for b
    using selected_toMerge(1) by (simp add: f src)
  have sf: "\<not> (useFramesCheckbox (selectedState False) \<and> nFrames (heap (selectedState False) 0) > 1)"
    by (simp add: f)
  from merger_single_some [OF f(1) f(2) sf tm, of sampleHost True]
  obtain m1 s1 where r1: "createMergeOnly sampleHost True (selectedState False) = (Obj m1, s1)"
    by blast
  from merger_multi_some [OF f(1) f(2) _ _ tm, of True sampleHost True]
  obtain m2 s2 where r2: "createMergeOnly sampleHost True (selectedState True) = (Obj m2, s2)"
    by (auto simp: f src)
  from merger_calibration [OF f(1) f(2) r1] merger_calibration [OF f(1) f(2) r2] r1 r2
  show ?thesis by (simp add: f src)
qed

text \<open>
  Claim C3 at a concrete input. With no merge checkbox checked, in multi-frame mode (a
  3-frame, 2-channel original, "use frames" checked) the Merger returns \<open>undefined\<close> and
  leaves its duplicate (reference 3) and both channel splits (references 4 and 5) open; in
  single-frame mode on the same original it returns \<open>null\<close> and has closed all three.
\<close>

theorem merger_zero_selection:
  "(\<exists>s'. createMergeOnly sampleHost False multiFrameState = (Undefined, s') \<and>
      \<not> closed (heap s' 3) \<and> \<not> closed (heap s' 4) \<and> \<not> closed (heap s' 5)) \<and>
   (\<exists>s'. createMergeOnly sampleHost False extractedState = (Null, s') \<and>
      closed (heap s' 3) \<and> closed (heap s' 4) \<and> closed (heap s' 5))"
proof -
  have f: "originalImage multiFrameState = Some 0" "heap multiFrameState 0 = sampleSource 2 3"
    "nextRef multiFrameState = 3" "mergeCheckboxes multiFrameState = [False, False, False, False]"
    "useFramesCheckbox multiFrameState"
    by (simp_all add: multiFrameState_def extractedState_def initialState_def)
  have g: "originalImage extractedState = Some 0" "heap extractedState 0 = sampleSource 2 3"
    "nextRef extractedState = 3" "mergeCheckboxes extractedState = [False, False, False, False]"
    "\<not> useFramesCheckbox extractedState"
    by (simp_all add: extractedState_def initialState_def)
  have src: "nChannels (sampleSource 2 3) = 2" "nFrames (sampleSource 2 3) = 3"
    by (simp_all add: sampleSource_def)
  have tm1: "collectToMerge (mergeCheckboxes multiFrameState)
      [nextRef multiFrameState + 1..<nextRef multiFrameState + 1
          + nChannels (heap multiFrameState 0)] = []"
    using selected_toMerge(2) by (simp add: f src)
  have tm2: "collectToMerge (mergeCheckboxes extractedState)
      [nextRef extractedState + 1..<nextRef extractedState + 1
          + nChannels (heap extractedState 0)] = []"
    using selected_toMerge(2) by (simp add: g src)
  from merger_multi_none [OF f(1) f(5) _ tm1, of sampleHost False]
  obtain s1 where r1: "createMergeOnly sampleHost False multiFrameState = (Undefined, s1)"
    "nextRef s1 = 6" "\<forall>q. 3 \<le> q \<and> q < nextRef s1 \<longrightarrow> \<not> closed (heap s1 q)"
    by (auto simp: f src)
  from merger_single_none [OF g(1) _ _ tm2, of sampleHost False]
  obtain s2 where r2: "createMergeOnly sampleHost False extractedState = (Null, s2)"
    "nextRef s2 = 6" "\<forall>q. 3 \<le> q \<and> q < nextRef s2 \<longrightarrow> closed (heap s2 q) \<and> \<not> changes (heap s2 q)"
    by (auto simp: g src)
  show ?thesis using r1 r2 by auto
qed

section \<open>The alignment workflow: proofs\<close>

lemma montage_no_message:
  "2 \<le> length images \<Longrightarrow> fst (stackImagesHorizontally h images) = []"
  by (simp add: stackImagesHorizontally_def Let_def case_prod_beta split: sum.splits)

lemma writeBack_messages: "messages (writeBack rs imgs s) = messages s"
proof -
  have "messages (fold (\<lambda>(r, img) s'. modify r (\<lambda>_. img) s') ps s) = messages s" for ps
    by (induction ps arbitrary: s) (simp_all add: case_prod_beta)
  then show ?thesis by (simp add: writeBack_def)
qed

lemma montageOn_messages:
  "2 \<le> length rs \<Longrightarrow> messages (snd (stackImagesHorizontallyOn h rs s)) = messages s"
proof -
  assume l: "2 \<le> length rs"
  obtain msgs res where e: "stackImagesHorizontally h (map (heap s) rs) = (msgs, res)"
    by (cases "stackImagesHorizontally h (map (heap s) rs)")
  have "msgs = []" using montage_no_message [of "map (heap s) rs" h] l e by simp
  then show ?thesis
    using e
    by (simp add: stackImagesHorizontallyOn_def writeBack_messages alloc_def case_prod_beta Let_def
        split: sum.splits option.splits)
qed

lemma align_messages:
  assumes "alignLoop h (alignmentChoices s) [] s = (Inr imagesToAlign, s1)"
  shows "messages (snd (alignSelectedImages h s)) =
     messages s1 @ (if length imagesToAlign < 2 then [stackingError] else [])"
proof (cases "length imagesToAlign < 2")
  case True
  then show ?thesis
    using assms by (simp add: alignSelectedImages_def stackingError_def)
next
  case False
  then have l: "2 \<le> length imagesToAlign" by simp
  obtain oc s2 where e: "stackImagesHorizontallyOn h imagesToAlign s1 = (oc, s2)"
    by (cases "stackImagesHorizontallyOn h imagesToAlign s1")
  have m: "messages s2 = messages s1" using montageOn_messages [OF l, of h s1] e by simp
  show ?thesis
    using assms False e m
    by (simp add: alignSelectedImages_def split: outcome.splits jsval.splits)
qed

lemma align_skip_channel:
  assumes "selection \<noteq> ''Merge''" "selection \<noteq> ''None''"
    and "fst (getChannelImage16OnTheFly h selection s) = Returned Null"
  shows "alignLoop h (selection # rest) imgs s = alignLoop h rest imgs s"
proof -
  obtain s' where e: "getChannelImage16OnTheFly h selection s = (Returned Null, s')"
    using assms(3) by (cases "getChannelImage16OnTheFly h selection s") simp
  then have "s' = s" by (rule provider_null)
  then show ?thesis using assms(1,2) e by simp
qed

lemma align_skip_merge:
  assumes "\<forall>m. fst (createMergeOnly h False s) \<noteq> Obj m"
  shows "alignLoop h (''Merge'' # rest) imgs s =
     alignLoop h rest imgs (snd (createMergeOnly h False s))"
proof -
  obtain r s' where e: "createMergeOnly h False s = (r, s')"
    by (cases "createMergeOnly h False s")
  then show ?thesis using assms by (cases r) simp_all
qed

lemma merger_silent:
  assumes o: "originalImage s = Some orig" and a: "orig < nextRef s"
    and nc: "1 \<le> nChannels (heap s orig)"
  shows "messages (snd (createMergeOnly h showImage s)) = messages s"
proof (cases "collectToMerge (mergeCheckboxes s)
               [nextRef s + 1..<nextRef s + 1 + nChannels (heap s orig)] = []")
  case True
  show ?thesis
  proof (cases "useFramesCheckbox s \<and> nFrames (heap s orig) > 1")
    case multi: True
    then have uf: "useFramesCheckbox s" and nf: "nFrames (heap s orig) > 1" by simp_all
    from merger_multi_none [OF o uf nf True, of h showImage] show ?thesis by auto
  next
    case False
    from merger_single_none [OF o False nc True, of h showImage] show ?thesis by auto
  qed
next
  case False
  show ?thesis
  proof (cases "useFramesCheckbox s \<and> nFrames (heap s orig) > 1")
    case multi: True
    then have uf: "useFramesCheckbox s" and nf: "nFrames (heap s orig) > 1" by simp_all
    from merger_multi_some [OF o a uf nf False, of h showImage] show ?thesis by auto
  next
    case single: False
    from merger_single_some [OF o a single False, of h showImage] show ?thesis by auto
  qed
qed

lemma align_take_channel:
  assumes "selection \<noteq> ''Merge''" "selection \<noteq> ''None''"
    and "fst (getChannelImage16OnTheFly h selection s) = Returned (Obj d)"
  shows "alignLoop h (selection # rest) imgs s =
     alignLoop h rest (imgs @ [d]) (snd (getChannelImage16OnTheFly h selection s))"
proof -
  obtain s' where e: "getChannelImage16OnTheFly h selection s = (Returned (Obj d), s')"
    using assms(3) by (cases "getChannelImage16OnTheFly h selection s") simp
  then show ?thesis using assms(1,2) by simp
qed

lemma align_take_merge:
  assumes "fst (createMergeOnly h False s) = Obj m"
  shows "alignLoop h (''Merge'' # rest) imgs s =
     alignLoop h rest (imgs @ [m]) (snd (createMergeOnly h False s))"
proof -
  obtain s' where e: "createMergeOnly h False s = (Obj m, s')"
    using assms by (cases "createMergeOnly h False s") simp
  then show ?thesis by simp
qed

text \<open>
  Claim C9, as the code has it. The loop over the selections is fixed step by step. A
  channel selection for which the Provider returns null is skipped with no effect at all,
  and a "Merge" selection for which the Merger returns no composite is skipped with the
  Merger's own effects only: the loop goes on with the same list of images and raises
  nothing. The Merger shows no message when an original image with at least one channel is
  set. A channel selection for which the Provider returns an image, and a "Merge" selection
  for which the Merger returns a composite, add exactly that image at the end of the list;
  "None" adds nothing; after the last selection the list is what the loop returns. So the
  list holds the images of the selections that resolved, in order, and the "Stacking Error"
  message is shown exactly when it holds fewer than 2 images.
\<close>

theorem align_skips:
  "(selection \<noteq> ''Merge'' \<and> selection \<noteq> ''None'' \<and>
      fst (getChannelImage16OnTheFly h selection s) = Returned Null \<longrightarrow>
      alignLoop h (selection # rest) imgs s = alignLoop h rest imgs s) \<and>
   ((\<forall>m. fst (createMergeOnly h False s) \<noteq> Obj m) \<longrightarrow>
      alignLoop h (''Merge'' # rest) imgs s =
        alignLoop h rest imgs (snd (createMergeOnly h False s))) \<and>
   (\<forall>orig. originalImage s = Some orig \<and> orig < nextRef s \<and> 1 \<le> nChannels (heap s orig) \<longrightarrow>
      messages (snd (createMergeOnly h False s)) = messages s) \<and>
   (\<forall>imagesToAlign s1. alignLoop h (alignmentChoices s) [] s = (Inr imagesToAlign, s1) \<longrightarrow>
      messages (snd (alignSelectedImages h s)) =
        messages s1 @ (if length imagesToAlign < 2 then [stackingError] else [])) \<and>
   (\<forall>d. selection \<noteq> ''Merge'' \<and> selection \<noteq> ''None'' \<and>
      fst (getChannelImage16OnTheFly h selection s) = Returned (Obj d) \<longrightarrow>
      alignLoop h (selection # rest) imgs s =
        alignLoop h rest (imgs @ [d]) (snd (getChannelImage16OnTheFly h selection s))) \<and>
   (\<forall>m. fst (createMergeOnly h False s) = Obj m \<longrightarrow>
      alignLoop h (''Merge'' # rest) imgs s =
        alignLoop h rest (imgs @ [m]) (snd (createMergeOnly h False s))) \<and>
   alignLoop h (''None'' # rest) imgs s = alignLoop h rest imgs s \<and>
   alignLoop h [] imgs s = (Inr imgs, s)"
proof (intro conjI allI impI)
  assume "selection \<noteq> ''Merge'' \<and> selection \<noteq> ''None'' \<and>
      fst (getChannelImage16OnTheFly h selection s) = Returned Null"
  then show "alignLoop h (selection # rest) imgs s = alignLoop h rest imgs s"
    using align_skip_channel [of selection h s rest imgs] by simp
next
  assume "\<forall>m. fst (createMergeOnly h False s) \<noteq> Obj m"
  then show "alignLoop h (''Merge'' # rest) imgs s =
        alignLoop h rest imgs (snd (createMergeOnly h False s))"
    by (rule align_skip_merge)
next
  fix orig
  assume "originalImage s = Some orig \<and> orig < nextRef s \<and> 1 \<le> nChannels (heap s orig)"
  then show "messages (snd (createMergeOnly h False s)) = messages s"
    using merger_silent [of s orig h False] by simp
next
  fix imagesToAlign s1
  assume "alignLoop h (alignmentChoices s) [] s = (Inr imagesToAlign, s1)"
  then show "messages (snd (alignSelectedImages h s)) =
        messages s1 @ (if length imagesToAlign < 2 then [stackingError] else [])"
    by (rule align_messages)
next
  fix d
  assume "selection \<noteq> ''Merge'' \<and> selection \<noteq> ''None'' \<and>
      fst (getChannelImage16OnTheFly h selection s) = Returned (Obj d)"
  then show "alignLoop h (selection # rest) imgs s =
        alignLoop h rest (imgs @ [d]) (snd (getChannelImage16OnTheFly h selection s))"
    using align_take_channel [of selection h s d rest imgs] by simp
next
  fix m
  assume "fst (createMergeOnly h False s) = Obj m"
  then show "alignLoop h (''Merge'' # rest) imgs s =
        alignLoop h rest (imgs @ [m]) (snd (createMergeOnly h False s))"
    by (rule align_take_merge)
next
  show "alignLoop h (''None'' # rest) imgs s = alignLoop h rest imgs s" by simp
next
  show "alignLoop h [] imgs s = (Inr imgs, s)" by simp
qed

text \<open>
  Claim C9 as stated fails where no original image is set: the "Merge" selection produces
  nothing and is skipped, but not silently, for the Merger shows its error message.
\<close>

theorem align_merge_counterexample:
  "fst (createMergeOnly sampleHost False mergeFirstState) = Null \<and>
   messages (snd (alignSelectedImages sampleHost mergeFirstState)) =
     [(''Error'', ''Original image not available.''), stackingError]"
  by (simp add: mergeFirstState_def initialState_def alignSelectedImages_def createMergeOnly_def
      showMessage_def stackingError_def)

lemma resolvedState_fields:
  "originalImage oneResolvedState = Some 0" "nextRef oneResolvedState = 3"
  "heap oneResolvedState q = sampleSource 2 3"
  "mergeCheckboxes oneResolvedState = [False, False, False, False]"
  "\<not> useFramesCheckbox oneResolvedState" "messages oneResolvedState = []"
  "alignmentChoices oneResolvedState = [''Ch1'', ''Ch3'', ''Merge'', ''None'', ''None'']"
  "splitInvertedChannels oneResolvedState = [Some 1, Some 2, None, None]"
  "originalImage twoResolvedState = Some 0" "nextRef twoResolvedState = 3"
  "heap twoResolvedState q = sampleSource 2 3"
  "mergeCheckboxes twoResolvedState = [True, True, False, False]"
  "\<not> useFramesCheckbox twoResolvedState" "messages twoResolvedState = []"
  "alignmentChoices twoResolvedState = [''Ch1'', ''Merge'', ''None'', ''None'', ''None'']"
  "splitInvertedChannels twoResolvedState = [Some 1, Some 2, None, None]"
  by (simp_all add: oneResolvedState_def twoResolvedState_def selectedState_def
      extractedState_def initialState_def)

lemma toMerge_5_7:
  "collectToMerge [True, True, False, False] [5..<7] \<noteq> []"
  "collectToMerge [False, False, False, False] [5..<7] = []"
  by (simp_all add: collectToMerge_def upt_rec)

text \<open>
  Three selections other than "None", of which only \<open>Ch1\<close> resolves (\<open>Ch3\<close> is
  unpopulated and no merge checkbox is checked): the loop gathers the one image, nothing is
  shown for the two skipped selections, then one "Stacking Error". Two selections, both of
  which resolve (\<open>Ch1\<close> and a merge of two channels): the loop gathers two images and no
  message is shown.
\<close>

theorem align_skips_witness:
  "fst (alignLoop sampleHost (alignmentChoices oneResolvedState) [] oneResolvedState) = Inr [3] \<and>
   length (filter (\<lambda>c. c \<noteq> ''None'') (alignmentChoices oneResolvedState)) = 3 \<and>
   messages (snd (alignSelectedImages sampleHost oneResolvedState)) = [stackingError] \<and>
   (\<exists>m. fst (alignLoop sampleHost (alignmentChoices twoResolvedState) [] twoResolvedState)
      = Inr [3, m]) \<and>
   length (filter (\<lambda>c. c \<noteq> ''None'') (alignmentChoices twoResolvedState)) = 2 \<and>
   messages (snd (alignSelectedImages sampleHost twoResolvedState)) = []"
proof -
  let ?h = sampleHost
  note rf = resolvedState_fields
  have src: "nChannels (sampleSource 2 3) = 2" "nFrames (sampleSource 2 3) = 3"
    by (simp_all add: sampleSource_def)
  let ?a = oneResolvedState
  have ea: "channelEntry ?a ''Ch1'' = Some 1" by (simp add: sample_entries rf)
  from provider_resolved [OF ea, of 0 ?h]
  obtain a1 where pa: "getChannelImage16OnTheFly ?h ''Ch1'' ?a = (Returned (Obj 3), a1)"
    and fa: "nextRef a1 = 4" "heap a1 0 = sampleSource 2 3" "originalImage a1 = Some 0"
      "splitInvertedChannels a1 = [Some 1, Some 2, None, None]" "\<not> useFramesCheckbox a1"
      "mergeCheckboxes a1 = [False, False, False, False]" "messages a1 = []"
    by (auto simp: rf)
  have a_1: "alignLoop ?h [''Ch1'', ''Ch3'', ''Merge'', ''None'', ''None''] [] ?a =
      alignLoop ?h [''Ch3'', ''Merge'', ''None'', ''None''] [3] a1"
    using align_skips [of "''Ch1''" ?h ?a "[''Ch3'', ''Merge'', ''None'', ''None'']" "[]"] pa
    by simp
  have na: "channelEntry a1 ''Ch3'' = None" by (simp add: sample_entries fa)
  have p3: "fst (getChannelImage16OnTheFly ?h ''Ch3'' a1) = Returned Null"
    using provider_unresolved [OF na, of ?h] by simp
  have a_2: "alignLoop ?h [''Ch3'', ''Merge'', ''None'', ''None''] [3] a1 =
      alignLoop ?h [''Merge'', ''None'', ''None''] [3] a1"
    using align_skips [of "''Ch3''" ?h a1 "[''Merge'', ''None'', ''None'']" "[3]"] p3
    by simp
  let ?am = "snd (createMergeOnly ?h False a1)"
  have tma: "collectToMerge (mergeCheckboxes a1)
      [nextRef a1 + 1..<nextRef a1 + 1 + nChannels (heap a1 0)] = []"
    using toMerge_5_7(2) by (simp add: fa src)
  from merger_single_none [OF fa(3) _ _ tma, of ?h False]
  have mga: "\<forall>m. fst (createMergeOnly ?h False a1) \<noteq> Obj m"
    by (auto simp: fa src)
  have a_3: "alignLoop ?h [''Merge'', ''None'', ''None''] [3] a1 =
      alignLoop ?h [''None'', ''None''] [3] ?am"
    using align_skips [of "''Ch3''" ?h a1 "[''None'', ''None'']" "[3]"] mga
    by simp
  have a_4: "alignLoop ?h [''None'', ''None''] [3] ?am = (Inr [3], ?am)"
    using align_skips [of "''Ch3''" ?h ?am "[''None'']" "[3]"]
      align_skips [of "''Ch3''" ?h ?am "[]" "[3]"]
    by simp
  have loopa: "alignLoop ?h (alignmentChoices ?a) [] ?a = (Inr [3], ?am)"
    using a_1 a_2 a_3 a_4 by (simp add: rf)
  have silenta: "messages ?am = []"
    using align_skips [of "''Ch3''" ?h a1 "[]" "[]"] fa src by simp
  have finala: "messages (snd (alignSelectedImages ?h ?a)) = [stackingError]"
    using align_skips [of "''Ch3''" ?h ?a "[]" "[]"] loopa silenta by simp
  let ?b = twoResolvedState
  have eb: "channelEntry ?b ''Ch1'' = Some 1" by (simp add: sample_entries rf)
  from provider_resolved [OF eb, of 0 ?h]
  obtain b1 where pb: "getChannelImage16OnTheFly ?h ''Ch1'' ?b = (Returned (Obj 3), b1)"
    and fb: "nextRef b1 = 4" "heap b1 0 = sampleSource 2 3" "originalImage b1 = Some 0"
      "\<not> useFramesCheckbox b1"
      "mergeCheckboxes b1 = [True, True, False, False]" "messages b1 = []"
    by (auto simp: rf)
  have b_1: "alignLoop ?h [''Ch1'', ''Merge'', ''None'', ''None'', ''None''] [] ?b =
      alignLoop ?h [''Merge'', ''None'', ''None'', ''None''] [3] b1"
    using align_skips [of "''Ch1''" ?h ?b "[''Merge'', ''None'', ''None'', ''None'']" "[]"] pb
    by simp
  let ?bm = "snd (createMergeOnly ?h False b1)"
  have tmb: "collectToMerge (mergeCheckboxes b1)
      [nextRef b1 + 1..<nextRef b1 + 1 + nChannels (heap b1 0)] \<noteq> []"
    using toMerge_5_7(1) by (simp add: fb src)
  from merger_single_some [OF fb(3) _ _ tmb, of ?h False]
  obtain m where mgb: "fst (createMergeOnly ?h False b1) = Obj m" and mb: "messages ?bm = []"
    by (auto simp: fb src)
  have b_2: "alignLoop ?h [''Merge'', ''None'', ''None'', ''None''] [3] b1 =
      alignLoop ?h [''None'', ''None'', ''None''] [3, m] ?bm"
    using align_skips [of "''Ch3''" ?h b1 "[''None'', ''None'', ''None'']" "[3]"] mgb
    by simp
  have b_3: "alignLoop ?h [''None'', ''None'', ''None''] [3, m] ?bm = (Inr [3, m], ?bm)"
    using align_skips [of "''Ch3''" ?h ?bm "[''None'', ''None'']" "[3, m]"]
      align_skips [of "''Ch3''" ?h ?bm "[''None'']" "[3, m]"]
      align_skips [of "''Ch3''" ?h ?bm "[]" "[3, m]"]
    by simp
  have loopb: "alignLoop ?h (alignmentChoices ?b) [] ?b = (Inr [3, m], ?bm)"
    using b_1 b_2 b_3 by (simp add: rf)
  have finalb: "messages (snd (alignSelectedImages ?h ?b)) = []"
    using align_skips [of "''Ch3''" ?h ?b "[]" "[]"] loopb mb by simp
  have cnt: "length (filter (\<lambda>c. c \<noteq> ''None'') (alignmentChoices ?a)) = 3"
    "length (filter (\<lambda>c. c \<noteq> ''None'') (alignmentChoices ?b)) = 2"
    by (simp_all add: rf)
  have exb: "\<exists>m. fst (alignLoop ?h (alignmentChoices ?b) [] ?b) = Inr [3, m]"
    using loopb by simp
  show ?thesis using loopa finala cnt exb finalb by simp
qed

end
